theory Spec2Isabelle
  imports Complex_Main "HOL-Library.AList" "HOL-Library.Sublist"
begin

section \<open>XTTS inference orchestration (TTS/tts/models/xtts.py)\<close>

text \<open>
  A shallow embedding of the orchestration code of \<^verbatim>\<open>TTS/tts/models/xtts.py\<close>.
  The neural networks (tokenizer, GPT, HiFi-GAN decoder), the audio loader and the
  resampler are collaborators outside the file; they are parameters of the functions
  below. Tensors are lists along the axis the code slices; samples are real numbers, so
  the rounding of float32 arithmetic is not part of the model.
\<close>

subsection \<open>Errors and Python slicing\<close>

datatype error =
    AssertionError
  | KeyError string
  | RuntimeError
  | IndexError
  | LoadError
  | AttributeError

text \<open>
  A slice bound \<open>i\<close> of a sequence of length \<open>n\<close>, as Python and torch read it:
  a negative bound counts from the end, and every bound is clamped into \<open>0..n\<close>.
\<close>

definition py_bound :: "nat \<Rightarrow> int \<Rightarrow> nat" where
  "py_bound n i = (if i < 0 then nat (int n + i) else min (nat i) n)"

text \<open>\<^verbatim>\<open>xs[start:stop]\<close>; an open bound is written \<open>0\<close> or \<open>int (length xs)\<close>.\<close>

definition py_slice :: "'a list \<Rightarrow> int \<Rightarrow> int \<Rightarrow> 'a list" where
  "py_slice xs start stop =
     (let s = py_bound (length xs) start; e = py_bound (length xs) stop
      in take (e - s) (drop s xs))"

subsection \<open>pad_or_truncate and the diffusion conditioning chunks\<close>

text \<open>
  \<^verbatim>\<open>
  def pad_or_truncate(t, length):
      tp = t[..., :length]
      if t.shape[-1] == length:
          tp = t
      elif t.shape[-1] < length:
          tp = F.pad(t, (0, length - t.shape[-1]))
      return tp
  \<close>
  The function acts on the last axis only, alike for every leading index; \<open>t\<close> is that
  axis. \<^verbatim>\<open>F.pad(t, (0, d))\<close> appends \<open>d\<close> zeros.
\<close>

definition pad_or_truncate :: "real list \<Rightarrow> int \<Rightarrow> real list" where
  "pad_or_truncate t len =
     (let tp = py_slice t 0 len in
      if int (length t) = len then t
      else if int (length t) < len then t @ replicate (nat (len - int (length t))) 0
      else tp)"

definition CHUNK_SIZE :: nat where
  "CHUNK_SIZE = 102400"

text \<open>
  The chunks that \<^verbatim>\<open>get_diffusion_cond_latents\<close> hands to the mel extraction, for a
  mono signal \<open>audio_24k\<close> (the resampled reference audio):
  \<^verbatim>\<open>
  for chunk in range(ceil(audio_24k.shape[1] / CHUNK_SIZE)):
      current_sample = audio_24k[:, chunk * CHUNK_SIZE : (chunk + 1) * CHUNK_SIZE]
      current_sample = pad_or_truncate(current_sample, CHUNK_SIZE)
  \<close>
  \<^verbatim>\<open>ceil(a / b)\<close> is the rounded-up quotient.
\<close>

definition diffusion_cond_chunks :: "real list \<Rightarrow> real list list" where
  "diffusion_cond_chunks audio_24k =
     map (\<lambda>chunk. pad_or_truncate
            (py_slice audio_24k (int (chunk * CHUNK_SIZE)) (int ((chunk + 1) * CHUNK_SIZE)))
            (int CHUNK_SIZE))
         [0 ..< (length audio_24k + CHUNK_SIZE - 1) div CHUNK_SIZE]"

text \<open>
  \<^verbatim>\<open>
  audio_24k = torchaudio.functional.resample(audio, sr, 24000)
  for chunk in range(...):
      ...
      cond_mel = wav_to_univnet_mel(current_sample.to(self.device), ...)
      diffusion_conds.append(cond_mel)
  diffusion_conds = torch.stack(diffusion_conds, dim=1)
  diffusion_latent = self.diffusion_decoder.get_conditioning(diffusion_conds)
  return diffusion_latent
  \<close>
  The class assigns \<^verbatim>\<open>self.diffusion_decoder\<close> nowhere, so the call ends in
  \<^verbatim>\<open>AttributeError\<close> after the loop (or in \<^verbatim>\<open>RuntimeError\<close> when \<^verbatim>\<open>torch.stack\<close> gets no chunk).
  The function returns the chunks handed to \<^verbatim>\<open>wav_to_univnet_mel\<close>, in order, and the error
  that is raised.
\<close>

definition get_diffusion_cond_latents ::
  "('a \<Rightarrow> int \<Rightarrow> int \<Rightarrow> real list) \<Rightarrow> (real list \<Rightarrow> 'm) \<Rightarrow> 'a \<Rightarrow> int
     \<Rightarrow> real list list \<times> error" where
  "get_diffusion_cond_latents resample wav_to_univnet_mel audio sr =
     (let audio_24k = resample audio sr 24000;
          fed = diffusion_cond_chunks audio_24k;
          diffusion_conds = map wav_to_univnet_mel fed
      in (fed, if diffusion_conds = [] then RuntimeError else AttributeError))"

subsection \<open>inference\<close>

text \<open>
  The collaborators that \<^verbatim>\<open>inference\<close> reaches through \<^verbatim>\<open>self\<close>:
  \<^verbatim>\<open>self.tokenizer.encode\<close>, \<^verbatim>\<open>self.gpt.generate\<close>, the teacher-forced pass \<^verbatim>\<open>self.gpt(...)\<close>,
  \<^verbatim>\<open>self.hifigan_decoder\<close>, and the settings \<^verbatim>\<open>self.args.gpt_max_text_tokens\<close> and
  \<^verbatim>\<open>self.gpt.code_stride_len\<close>. The sampling settings (temperature, top_k, ...) travel as
  one opaque value \<open>'s\<close>. A batch of code rows or of latent sequences is a list of rows.
\<close>

record ('c, 's, 'l, 'g, 'w) xtts =
  tokenizer_encode :: "string \<Rightarrow> string \<Rightarrow> int list"
  gpt_generate :: "'c \<Rightarrow> int list \<Rightarrow> 's \<Rightarrow> int list list"
  gpt_forward :: "int list \<Rightarrow> int \<Rightarrow> int list list \<Rightarrow> int \<Rightarrow> 'c \<Rightarrow> 'l list list"
  hifigan_decoder :: "'l list list \<Rightarrow> 'g \<Rightarrow> 'w"
  gpt_max_text_tokens :: int
  gpt_code_stride_len :: int

text \<open>The dictionary that \<^verbatim>\<open>inference\<close> returns.\<close>

record ('l, 'g, 'w) inference_output =
  wav :: 'w
  gpt_latents :: "'l list list"
  speaker_embedding :: 'g

text \<open>The calls into the networks, in the order they are made.\<close>

datatype network_call = Gpt_generate | Gpt_forward | Hifigan_decoder

definition silence_token :: int where
  "silence_token = 83"

text \<open>
  \<^verbatim>\<open>
  ctokens = 0
  for k in range(gpt_codes.shape[-1]):
      if gpt_codes[0, k] == silence_token:
          ctokens += 1
      else:
          ctokens = 0
      if ctokens > 8:
          gpt_latents = gpt_latents[:, :k]
          break
  \<close>
  \<open>silence_scan cs k ctokens\<close> runs the loop from index \<open>k\<close> over the remaining codes
  \<open>cs\<close> of row 0 and returns the index at which the loop breaks, if it does.
\<close>

fun silence_scan :: "int list \<Rightarrow> nat \<Rightarrow> nat \<Rightarrow> nat option" where
  "silence_scan [] k ctokens = None"
| "silence_scan (c # cs) k ctokens =
     (let ctokens = (if c = silence_token then ctokens + 1 else 0) in
      if ctokens > 8 then Some k else silence_scan cs (k + 1) ctokens)"

definition truncate_silence :: "int list list \<Rightarrow> 'l list list \<Rightarrow> 'l list list" where
  "truncate_silence gpt_codes latents =
     (case silence_scan (case gpt_codes of [] \<Rightarrow> [] | row0 # _ \<Rightarrow> row0) 0 0 of
        None \<Rightarrow> latents
      | Some k \<Rightarrow> map (\<lambda>row. py_slice row 0 (int k)) latents)"

definition codes_shape_last :: "int list list \<Rightarrow> int" where
  "codes_shape_last gpt_codes = (case gpt_codes of [] \<Rightarrow> 0 | row0 # _ \<Rightarrow> int (length row0))"

text \<open>
  \<^verbatim>\<open>inference(text, language, gpt_cond_latent, speaker_embedding, ..., decoder="hifigan")\<close>.
  \<open>strip_lower\<close> stands for \<^verbatim>\<open>text.strip().lower()\<close>. The assertion on the token count
  comes before every call into the networks. The parameter \<open>decoder\<close> (like
  \<^verbatim>\<open>decoder_iterations\<close>, \<^verbatim>\<open>cond_free\<close>, \<^verbatim>\<open>cond_free_k\<close>, \<^verbatim>\<open>diffusion_temperature\<close> and
  \<^verbatim>\<open>decoder_sampler\<close>) is in the signature and is read nowhere in the body.
\<close>

definition inference ::
  "(string \<Rightarrow> string) \<Rightarrow> ('c, 's, 'l, 'g, 'w) xtts \<Rightarrow> string \<Rightarrow> string \<Rightarrow> 'c \<Rightarrow> 'g \<Rightarrow> 's \<Rightarrow> string
     \<Rightarrow> network_call list \<times> (error + ('l, 'g, 'w) inference_output)" where
  "inference strip_lower self text language gpt_cond_latent spk settings decoder =
     (let text_tokens = tokenizer_encode self (strip_lower text) language in
      if \<not> int (length text_tokens) < gpt_max_text_tokens self then ([], Inl AssertionError)
      else
        let gpt_codes = gpt_generate self gpt_cond_latent text_tokens settings;
            expected_output_len = codes_shape_last gpt_codes * gpt_code_stride_len self;
            text_len = int (length text_tokens);
            latents = gpt_forward self text_tokens text_len gpt_codes expected_output_len
                        gpt_cond_latent;
            latents = truncate_silence gpt_codes latents;
            w = hifigan_decoder self latents spk
        in ([Gpt_generate, Gpt_forward, Hifigan_decoder],
            Inr \<lparr>wav = w, gpt_latents = latents, speaker_embedding = spk\<rparr>))"

subsection \<open>get_conditioning_latents\<close>

text \<open>
  The values \<^verbatim>\<open>audio_path\<close> can take: a list of paths, one string, or another iterable
  of paths such as a tuple.
  \<^verbatim>\<open>
  if not isinstance(audio_path, list):
      audio_paths = list(audio_path)
  else:
      audio_paths = audio_path
  \<close>
  \<^verbatim>\<open>list\<close> of a string is the list of its characters, each a string of length one.
\<close>

datatype audio_path_arg = Py_list "string list" | Py_str string | Py_tuple "string list"

fun audio_paths_of :: "audio_path_arg \<Rightarrow> string list" where
  "audio_paths_of (Py_list ps) = ps"
| "audio_paths_of (Py_str s) = map (\<lambda>c. [c]) s"
| "audio_paths_of (Py_tuple ps) = ps"

text \<open>
  The loop \<^verbatim>\<open>for file_path in audio_paths\<close>: each path is loaded by \<^verbatim>\<open>torchaudio.load\<close>
  (the first failure ends the call) and the clip is prepared (cut to the maximum
  reference length, mixed down, normalised, trimmed), which \<open>prepare\<close> stands for.
  The first component of the result lists the paths given to \<^verbatim>\<open>torchaudio.load\<close>, in
  order.
\<close>

fun load_clips ::
  "(string \<Rightarrow> error + 'a) \<Rightarrow> ('a \<Rightarrow> 'b) \<Rightarrow> string list \<Rightarrow> string list \<times> (error + 'b list)" where
  "load_clips torchaudio_load prepare [] = ([], Inr [])"
| "load_clips torchaudio_load prepare (file_path # rest) =
     (case torchaudio_load file_path of
        Inl e \<Rightarrow> ([file_path], Inl e)
      | Inr audio \<Rightarrow>
          (case load_clips torchaudio_load prepare rest of
             (loaded, Inl e) \<Rightarrow> (file_path # loaded, Inl e)
           | (loaded, Inr audios) \<Rightarrow> (file_path # loaded, Inr (prepare audio # audios))))"

text \<open>
  \<^verbatim>\<open>get_conditioning_latents\<close>: the clips are embedded one by one, their concatenation
  gives the GPT conditioning latents (\<^verbatim>\<open>torch.cat\<close> of no clip raises), and the speaker
  embedding is the mean of the clips' embeddings. The result is the list of the paths
  loaded and the pair returned, or the error raised.
\<close>

definition get_conditioning_latents ::
  "(string \<Rightarrow> error + 'a) \<Rightarrow> ('a \<Rightarrow> 'b) \<Rightarrow> ('b \<Rightarrow> 'g) \<Rightarrow> ('b list \<Rightarrow> 'c) \<Rightarrow> ('g list \<Rightarrow> 'g)
     \<Rightarrow> audio_path_arg \<Rightarrow> string list \<times> (error + ('c \<times> 'g))" where
  "get_conditioning_latents torchaudio_load prepare get_speaker_embedding get_gpt_cond_latents
       mean_embedding audio_path =
     (let audio_paths = audio_paths_of audio_path in
      case load_clips torchaudio_load prepare audio_paths of
        (loaded, Inl e) \<Rightarrow> (loaded, Inl e)
      | (loaded, Inr audios) \<Rightarrow>
          (loaded,
           if audios = [] then Inl RuntimeError
           else Inr (get_gpt_cond_latents audios,
                     mean_embedding (map get_speaker_embedding audios))))"

subsection \<open>get_compatible_checkpoint_state_dict\<close>

text \<open>
  The checkpoint is a Python dictionary from keys to tensors: a list of pairs with
  distinct keys, in insertion order. \<^verbatim>\<open>d[k] = v\<close> is \<open>AList.update\<close> (an old key keeps
  its place, a new key goes to the end), \<^verbatim>\<open>d[k]\<close> is \<open>map_of\<close>, and \<^verbatim>\<open>del d[k]\<close> raises
  \<^verbatim>\<open>KeyError\<close> when the key is missing.
  \<^verbatim>\<open>
  ignore_keys = ["torch_mel_spectrogram_style_encoder", "torch_mel_spectrogram_dvae", "dvae"]
  for key in list(checkpoint.keys()):
      if key.startswith("xtts."):
          new_key = key.replace("xtts.", "")
          checkpoint[new_key] = checkpoint[key]
          del checkpoint[key]
          key = new_key
      if key.split(".")[0] in ignore_keys:
          del checkpoint[key]
  return checkpoint
  \<close>
  \<open>str_remove old s\<close> is \<^verbatim>\<open>s.replace(old, "")\<close>: every occurrence of \<open>old\<close>, found from
  left to right without overlap, is taken out.
\<close>

function str_remove :: "string \<Rightarrow> string \<Rightarrow> string" where
  "str_remove old [] = []"
| "str_remove old (c # cs) =
     (if old \<noteq> [] \<and> prefix old (c # cs)
      then str_remove old (drop (length old) (c # cs))
      else c # str_remove old cs)"
  by pat_completeness auto
termination
  by (relation "measure (\<lambda>(old, s). length s)") auto

definition ignore_keys :: "string list" where
  "ignore_keys =
     [''torch_mel_spectrogram_style_encoder'', ''torch_mel_spectrogram_dvae'', ''dvae'']"

definition first_component :: "string \<Rightarrow> string" where
  "first_component key = takeWhile (\<lambda>c. c \<noteq> CHR ''.'') key"

definition py_del :: "(string \<times> 'v) list \<Rightarrow> string \<Rightarrow> error + (string \<times> 'v) list" where
  "py_del d key = (if key \<in> fst ` set d then Inr (AList.delete key d) else Inl (KeyError key))"

definition convert_key :: "string \<Rightarrow> (string \<times> 'v) list \<Rightarrow> error + (string \<times> (string \<times> 'v) list)" where
  "convert_key key checkpoint =
     (if prefix ''xtts.'' key then
        (let new_key = str_remove ''xtts.'' key in
         case map_of checkpoint key of
           None \<Rightarrow> Inl (KeyError key)
         | Some v \<Rightarrow>
             (case py_del (AList.update new_key v checkpoint) key of
                Inl e \<Rightarrow> Inl e
              | Inr checkpoint \<Rightarrow> Inr (new_key, checkpoint)))
      else Inr (key, checkpoint))"

definition remove_unused :: "string \<Rightarrow> (string \<times> 'v) list \<Rightarrow> error + (string \<times> 'v) list" where
  "remove_unused key checkpoint =
     (if first_component key \<in> set ignore_keys then py_del checkpoint key else Inr checkpoint)"

fun compat_loop :: "string list \<Rightarrow> (string \<times> 'v) list \<Rightarrow> error + (string \<times> 'v) list" where
  "compat_loop [] checkpoint = Inr checkpoint"
| "compat_loop (key # keys) checkpoint =
     (case convert_key key checkpoint of
        Inl e \<Rightarrow> Inl e
      | Inr (key, checkpoint) \<Rightarrow>
          (case remove_unused key checkpoint of
             Inl e \<Rightarrow> Inl e
           | Inr checkpoint \<Rightarrow> compat_loop keys checkpoint))"

definition get_compatible_checkpoint_state_dict ::
  "(string \<times> 'v) list \<Rightarrow> error + (string \<times> 'v) list" where
  "get_compatible_checkpoint_state_dict checkpoint = compat_loop (map fst checkpoint) checkpoint"

text \<open>
  The mapping in the words of the specification: the prefix \<^verbatim>\<open>xtts.\<close> is taken off a key
  that begins with it, and an entry whose first component is then an ignored one is left
  out. A key is clean when \<^verbatim>\<open>xtts.\<close> occurs in it at most as that prefix.
\<close>

definition strip_xtts_prefix :: "string \<Rightarrow> string" where
  "strip_xtts_prefix key = (if prefix ''xtts.'' key then drop 5 key else key)"

definition remapped_checkpoint :: "(string \<times> 'v) list \<Rightarrow> (string \<times> 'v) list" where
  "remapped_checkpoint checkpoint =
     filter (\<lambda>(key, v). first_component key \<notin> set ignore_keys)
       (map (\<lambda>(key, v). (strip_xtts_prefix key, v)) checkpoint)"

definition clean_xtts_key :: "string \<Rightarrow> bool" where
  "clean_xtts_key key = (prefix ''xtts.'' key \<longrightarrow> \<not> sublist ''xtts.'' (drop 5 key))"

subsection \<open>load_checkpoint\<close>

text \<open>
  \<^verbatim>\<open>
  if os.path.exists(vocab_path):
      self.tokenizer = VoiceBpeTokenizer(vocab_file=vocab_path)
  self.init_models()
  checkpoint = self.get_compatible_checkpoint_state_dict(model_path)
  try:
      self.load_state_dict(checkpoint, strict=strict)
  except:
      if eval:
          self.gpt.init_gpt_for_inference(kv_cache=self.args.kv_cache)
      self.load_state_dict(checkpoint, strict=strict)
  if eval:
      self.hifigan_decoder.eval()
      self.gpt.init_gpt_for_inference(kv_cache=self.args.kv_cache, use_deepspeed=use_deepspeed)
      self.gpt.eval()
  \<close>
  The module is a state \<open>'m\<close> that each call transforms; \<open>load_state_dict\<close> returns the
  error it raises, if any, together with the state it leaves. \<open>model_file\<close> is the
  dictionary stored in the weights file. The function returns the calls it made, in order,
  and the final state or the error that reaches the caller.
\<close>

datatype load_call =
  Load_tokenizer | Init_models | Load_state_dict | Init_gpt_for_inference | Hifigan_eval | Gpt_eval

record ('m, 'v) xtts_module =
  load_tokenizer :: "'m \<Rightarrow> 'm"
  init_models :: "'m \<Rightarrow> 'm"
  load_state_dict :: "(string \<times> 'v) list \<Rightarrow> bool \<Rightarrow> 'm \<Rightarrow> error option \<times> 'm"
  init_gpt_for_inference :: "'m \<Rightarrow> 'm"
  hifigan_eval :: "'m \<Rightarrow> 'm"
  gpt_eval :: "'m \<Rightarrow> 'm"

definition finish_load ::
  "('m, 'v) xtts_module \<Rightarrow> bool \<Rightarrow> load_call list \<Rightarrow> 'm \<Rightarrow> load_call list \<times> (error + 'm)" where
  "finish_load M eval calls m =
     (if eval
      then (calls @ [Hifigan_eval, Init_gpt_for_inference, Gpt_eval],
            Inr (gpt_eval M (init_gpt_for_inference M (hifigan_eval M m))))
      else (calls, Inr m))"

definition load_checkpoint ::
  "('m, 'v) xtts_module \<Rightarrow> bool \<Rightarrow> (string \<times> 'v) list \<Rightarrow> bool \<Rightarrow> bool \<Rightarrow> 'm
     \<Rightarrow> load_call list \<times> (error + 'm)" where
  "load_checkpoint M vocab_exists model_file eval strict m =
     (let (calls, m) = (if vocab_exists then ([Load_tokenizer], load_tokenizer M m) else ([], m));
          (calls, m) = (calls @ [Init_models], init_models M m)
      in case get_compatible_checkpoint_state_dict model_file of
           Inl e \<Rightarrow> (calls, Inl e)
         | Inr checkpoint \<Rightarrow>
             (case load_state_dict M checkpoint strict m of
                (None, m) \<Rightarrow> finish_load M eval (calls @ [Load_state_dict]) m
              | (Some e, m) \<Rightarrow>
                  let (calls, m) =
                        (if eval then (calls @ [Load_state_dict, Init_gpt_for_inference],
                                       init_gpt_for_inference M m)
                         else (calls @ [Load_state_dict], m))
                  in (case load_state_dict M checkpoint strict m of
                        (None, m) \<Rightarrow> finish_load M eval (calls @ [Load_state_dict]) m
                      | (Some e', m) \<Rightarrow> (calls @ [Load_state_dict], Inl e'))))"

definition load_attempts :: "load_call list \<Rightarrow> nat" where
  "load_attempts calls = length (filter (\<lambda>c. c = Load_state_dict) calls)"

text \<open>
  Two modules for the concrete runs: the first load of \<open>flaky_module\<close> fails and its
  later loads succeed; every load of \<open>broken_module\<close> fails.
\<close>

definition flaky_module :: "(nat, nat) xtts_module" where
  "flaky_module =
     \<lparr>load_tokenizer = id, init_models = id,
      load_state_dict = (\<lambda>checkpoint strict m. (if m < 1 then Some LoadError else None, m + 1)),
      init_gpt_for_inference = (\<lambda>m. m + 10), hifigan_eval = id, gpt_eval = id\<rparr>"

definition broken_module :: "(nat, nat) xtts_module" where
  "broken_module =
     \<lparr>load_tokenizer = id, init_models = id,
      load_state_dict = (\<lambda>checkpoint strict m. (Some LoadError, m + 1)),
      init_gpt_for_inference = (\<lambda>m. m + 10), hifigan_eval = id, gpt_eval = id\<rparr>"

subsection \<open>handle_chunks\<close>

text \<open>
  The tensor operations that \<^verbatim>\<open>handle_chunks\<close> uses, on one-dimensional tensors.
  \<open>linspace a b steps\<close> is \<^verbatim>\<open>torch.linspace(a, b, steps)\<close> in exact arithmetic: \<open>steps\<close>
  evenly spaced values from \<open>a\<close> to \<open>b\<close> (the one value \<open>a\<close> when \<open>steps = 1\<close>).
  \<open>broadcast f xs ys\<close> is an elementwise operation: the sizes must agree, or one of them
  is 1 and that tensor is repeated; otherwise torch raises \<^verbatim>\<open>RuntimeError\<close>.
\<close>

definition linspace :: "real \<Rightarrow> real \<Rightarrow> nat \<Rightarrow> real list" where
  "linspace a b steps = map (\<lambda>i. a + (b - a) * real i / real (steps - 1)) [0..<steps]"

definition broadcast :: "(real \<Rightarrow> real \<Rightarrow> real) \<Rightarrow> real list \<Rightarrow> real list \<Rightarrow> error + real list" where
  "broadcast f xs ys =
     (if length xs = length ys then Inr (map2 f xs ys)
      else if length xs = 1 then Inr (map (f (hd xs)) ys)
      else if length ys = 1 then Inr (map (\<lambda>x. f x (hd ys)) xs)
      else Inl RuntimeError)"

text \<open>
  \<^verbatim>\<open>t[:k] = rhs\<close> and \<^verbatim>\<open>t[:k] += rhs\<close>: the right-hand side must have the size of the
  slice \<^verbatim>\<open>t[:k]\<close> or the size 1; the result is \<open>t\<close> after the write.
\<close>

definition assign_head :: "nat \<Rightarrow> real list \<Rightarrow> real list \<Rightarrow> error + real list" where
  "assign_head k t rhs =
     (let m = min k (length t) in
      if length rhs = m then Inr (rhs @ drop m t)
      else if length rhs = 1 then Inr (replicate m (hd rhs) @ drop m t)
      else Inl RuntimeError)"

definition add_head :: "nat \<Rightarrow> real list \<Rightarrow> real list \<Rightarrow> error + real list" where
  "add_head k t rhs =
     (let m = min k (length t) in
      if length rhs = m then Inr (map2 (+) (take m t) rhs @ drop m t)
      else if length rhs = 1 then Inr (map (\<lambda>x. x + hd rhs) (take m t) @ drop m t)
      else Inl RuntimeError)"

text \<open>
  \<^verbatim>\<open>
  def handle_chunks(self, wav_gen, wav_gen_prev, wav_overlap, overlap_len):
      wav_chunk = wav_gen[:-overlap_len]
      if wav_gen_prev is not None:
          wav_chunk = wav_gen[(wav_gen_prev.shape[0] - overlap_len) : -overlap_len]
      if wav_overlap is not None:
          crossfade_wav = wav_chunk[:overlap_len]
          crossfade_wav = crossfade_wav * torch.linspace(0.0, 1.0, overlap_len).to(crossfade_wav.device)
          wav_chunk[:overlap_len] = wav_overlap * torch.linspace(1.0, 0.0, overlap_len).to(wav_overlap.device)
          wav_chunk[:overlap_len] += crossfade_wav
      wav_overlap = wav_gen[-overlap_len:]
      wav_gen_prev = wav_gen
      return wav_chunk, wav_gen_prev, wav_overlap
  \<close>
  \<open>overlap_len\<close> is a number of samples (a negative value is outside the model).
  \<open>chunk_slice\<close> is \<open>wav_chunk\<close> before the blend
  and \<open>chunk_start\<close> the index of \<open>wav_gen\<close> at which that slice begins. The slice is a
  view of \<open>wav_gen\<close>, so the two writes of the blend also change \<open>wav_gen\<close>; the returned
  \<open>wav_gen_prev\<close> and \<open>wav_overlap\<close> are taken from \<open>wav_gen\<close> after these writes.
\<close>

definition chunk_start :: "real list \<Rightarrow> real list option \<Rightarrow> nat \<Rightarrow> nat" where
  "chunk_start wav_gen wav_gen_prev overlap_len =
     (case wav_gen_prev of
        None \<Rightarrow> 0
      | Some prev \<Rightarrow> py_bound (length wav_gen) (int (length prev) - int overlap_len))"

definition chunk_slice :: "real list \<Rightarrow> real list option \<Rightarrow> nat \<Rightarrow> real list" where
  "chunk_slice wav_gen wav_gen_prev overlap_len =
     (let wav_chunk = py_slice wav_gen 0 (- int overlap_len) in
      case wav_gen_prev of
        None \<Rightarrow> wav_chunk
      | Some prev \<Rightarrow>
          py_slice wav_gen (int (length prev) - int overlap_len) (- int overlap_len))"

definition blend_chunk :: "real list \<Rightarrow> real list \<Rightarrow> nat \<Rightarrow> error + real list" where
  "blend_chunk wav_chunk wav_overlap overlap_len =
     (case broadcast (*) (take overlap_len wav_chunk) (linspace 0 1 overlap_len) of
        Inl e \<Rightarrow> Inl e
      | Inr crossfade_wav \<Rightarrow>
          (case broadcast (*) wav_overlap (linspace 1 0 overlap_len) of
             Inl e \<Rightarrow> Inl e
           | Inr faded \<Rightarrow>
               (case assign_head overlap_len wav_chunk faded of
                  Inl e \<Rightarrow> Inl e
                | Inr wav_chunk \<Rightarrow> add_head overlap_len wav_chunk crossfade_wav)))"

definition handle_chunks ::
  "real list \<Rightarrow> real list option \<Rightarrow> real list option \<Rightarrow> nat
     \<Rightarrow> error + (real list \<times> real list \<times> real list)" where
  "handle_chunks wav_gen wav_gen_prev wav_overlap overlap_len =
     (let wav_chunk = chunk_slice wav_gen wav_gen_prev overlap_len;
          start = chunk_start wav_gen wav_gen_prev overlap_len
      in case wav_overlap of
           None \<Rightarrow>
             Inr (wav_chunk, wav_gen,
                  py_slice wav_gen (- int overlap_len) (int (length wav_gen)))
         | Some ov \<Rightarrow>
             (case blend_chunk wav_chunk ov overlap_len of
                Inl e \<Rightarrow> Inl e
              | Inr wav_chunk \<Rightarrow>
                  let wav_gen = take start wav_gen @ wav_chunk
                                @ drop (start + length wav_chunk) wav_gen
                  in Inr (wav_chunk, wav_gen,
                          py_slice wav_gen (- int overlap_len) (int (length wav_gen)))))"

subsection \<open>inference_stream\<close>

text \<open>
  \<^verbatim>\<open>
  last_tokens = []; all_latents = []; wav_gen_prev = None; wav_overlap = None; is_end = False
  while not is_end:
      try:
          x, latent = next(gpt_generator)
          last_tokens += [x]
          all_latents += [latent]
      except StopIteration:
          is_end = True
      if is_end or (stream_chunk_size > 0 and len(last_tokens) >= stream_chunk_size):
          gpt_latents = torch.cat(all_latents, dim=0)[None, :]
          wav_gen = self.hifigan_decoder(gpt_latents, g=speaker_embedding.to(self.device))
          wav_chunk, wav_gen_prev, wav_overlap = self.handle_chunks(
              wav_gen.squeeze(), wav_gen_prev, wav_overlap, overlap_wav_len)
          last_tokens = []
          yield wav_chunk
  \<close>
  The generator is the list of the pairs it yields before it is exhausted; each latent
  is a block of frames. \<open>decode_chunk\<close> is the body of the inner \<^verbatim>\<open>if\<close>: \<^verbatim>\<open>torch.cat\<close> of
  no block raises, the decoder \<open>hifigan\<close> gives the samples of the one waveform it returns,
  and \<^verbatim>\<open>squeeze\<close> turns a waveform of one sample into a scalar, which cannot be sliced.
  \<open>stream_loop\<close> returns the chunks yielded, in order, and the error that ends the
  iteration, if one does.
\<close>

definition decode_chunk ::
  "('l list \<Rightarrow> 'g \<Rightarrow> real list) \<Rightarrow> 'g \<Rightarrow> nat \<Rightarrow> 'l list list
     \<Rightarrow> real list option \<Rightarrow> real list option \<Rightarrow> error + (real list \<times> real list \<times> real list)" where
  "decode_chunk hifigan spk overlap_wav_len all_latents wav_gen_prev wav_overlap =
     (if all_latents = [] then Inl RuntimeError
      else
        let wav_gen = hifigan (concat all_latents) spk in
        if length wav_gen = 1 then Inl IndexError
        else handle_chunks wav_gen wav_gen_prev wav_overlap overlap_wav_len)"

fun stream_loop ::
  "('l list \<Rightarrow> 'g \<Rightarrow> real list) \<Rightarrow> 'g \<Rightarrow> int \<Rightarrow> nat \<Rightarrow> ('x \<times> 'l list) list \<Rightarrow> 'x list
     \<Rightarrow> 'l list list \<Rightarrow> real list option \<Rightarrow> real list option
     \<Rightarrow> real list list \<times> error option" where
  "stream_loop hifigan spk stream_chunk_size overlap_wav_len [] last_tokens all_latents
       wav_gen_prev wav_overlap =
     (case decode_chunk hifigan spk overlap_wav_len all_latents wav_gen_prev wav_overlap of
        Inl e \<Rightarrow> ([], Some e)
      | Inr (wav_chunk, wav_gen_prev, wav_overlap) \<Rightarrow> ([wav_chunk], None))"
| "stream_loop hifigan spk stream_chunk_size overlap_wav_len ((x, latent) # gpt_generator)
       last_tokens all_latents wav_gen_prev wav_overlap =
     (let last_tokens = last_tokens @ [x];
          all_latents = all_latents @ [latent]
      in if 0 < stream_chunk_size \<and> stream_chunk_size \<le> int (length last_tokens) then
           (case decode_chunk hifigan spk overlap_wav_len all_latents wav_gen_prev wav_overlap of
              Inl e \<Rightarrow> ([], Some e)
            | Inr (wav_chunk, wav_gen_prev, wav_overlap) \<Rightarrow>
                (case stream_loop hifigan spk stream_chunk_size overlap_wav_len gpt_generator []
                        all_latents (Some wav_gen_prev) (Some wav_overlap) of
                   (chunks, finish) \<Rightarrow> (wav_chunk # chunks, finish)))
         else stream_loop hifigan spk stream_chunk_size overlap_wav_len gpt_generator
                last_tokens all_latents wav_gen_prev wav_overlap)"

text \<open>
  The collaborators of \<^verbatim>\<open>inference_stream\<close>: the tokenizer, the generator that
  \<^verbatim>\<open>self.gpt.get_generator\<close> returns for the embeddings of the conditioning latents and
  the tokens, and the HiFi-GAN decoder of one latent sequence.
\<close>

record ('c, 's, 'x, 'l, 'g) xtts_stream =
  stream_tokenizer_encode :: "string \<Rightarrow> string \<Rightarrow> int list"
  gpt_get_generator :: "'c \<Rightarrow> int list \<Rightarrow> 's \<Rightarrow> ('x \<times> 'l list) list"
  stream_hifigan_decoder :: "'l list \<Rightarrow> 'g \<Rightarrow> real list"

definition inference_stream ::
  "(string \<Rightarrow> string) \<Rightarrow> ('c, 's, 'x, 'l, 'g) xtts_stream \<Rightarrow> string \<Rightarrow> string \<Rightarrow> 'c \<Rightarrow> 'g
     \<Rightarrow> int \<Rightarrow> nat \<Rightarrow> 's \<Rightarrow> string \<Rightarrow> real list list \<times> error option" where
  "inference_stream strip_lower self text language gpt_cond_latent spk stream_chunk_size
       overlap_wav_len settings decoder =
     (let text_tokens = stream_tokenizer_encode self (strip_lower text) language;
          gpt_generator = gpt_get_generator self gpt_cond_latent text_tokens settings
      in stream_loop (stream_hifigan_decoder self) spk stream_chunk_size overlap_wav_len
           gpt_generator [] [] None None)"

subsection \<open>The streamed signal in the words of the specification\<close>

text \<open>
  \<open>crossfade tail head\<close> is the linear blend of the specification: sample \<open>i\<close> of the tail
  of the previous decode, weighted by a fade from 1 down to 0, plus sample \<open>i\<close> of the head
  of the new chunk, weighted by the complementary fade from 0 up to 1.
  \<open>stitched_chunks ov prev ws\<close> are the chunks for the successive decodes \<open>ws\<close>: the
  first decode without its last \<open>ov\<close> samples, and for each later decode \<open>w\<close> after a decode
  \<open>p\<close> the blend over the \<open>ov\<close> samples before position \<open>length p\<close>, followed by the samples
  of \<open>w\<close> from \<open>length p\<close> up to the last \<open>ov\<close>. \<open>chunk_shapes\<close> says that the first decode
  has at least \<open>ov\<close> samples (and not exactly one) and that every later decode is at least
  \<open>ov\<close> samples longer than the one before. \<open>emission_latents\<close> lists the accumulated
  latents at each decode of the loop, and \<open>stream_decodes\<close> the waveforms decoded from
  them. \<open>chunk_deficit\<close> is the number of leading samples of the next decode that the next
  chunk does not cover.
\<close>

definition crossfade :: "real list \<Rightarrow> real list \<Rightarrow> real list" where
  "crossfade tail head =
     map (\<lambda>i. tail ! i * (1 - real i / real (length tail - 1))
              + head ! i * (real i / real (length tail - 1)))
         [0..<length tail]"

fun stitched_chunks :: "nat \<Rightarrow> real list option \<Rightarrow> real list list \<Rightarrow> real list list" where
  "stitched_chunks ov prev [] = []"
| "stitched_chunks ov None (w # ws) = take (length w - ov) w # stitched_chunks ov (Some w) ws"
| "stitched_chunks ov (Some p) (w # ws) =
     (crossfade (drop (length p - ov) p) (take ov (drop (length p - ov) w))
      @ take (length w - ov - length p) (drop (length p) w))
     # stitched_chunks ov (Some w) ws"

fun chunk_shapes :: "nat \<Rightarrow> real list option \<Rightarrow> real list list \<Rightarrow> bool" where
  "chunk_shapes ov prev [] = True"
| "chunk_shapes ov None (w # ws) =
     (ov \<le> length w \<and> length w \<noteq> 1 \<and> chunk_shapes ov (Some w) ws)"
| "chunk_shapes ov (Some p) (w # ws) =
     (length p + ov \<le> length w \<and> chunk_shapes ov (Some w) ws)"

fun emission_latents :: "int \<Rightarrow> ('x \<times> 'l list) list \<Rightarrow> nat \<Rightarrow> 'l list list \<Rightarrow> 'l list list list" where
  "emission_latents stream_chunk_size [] count all_latents = [all_latents]"
| "emission_latents stream_chunk_size ((x, latent) # gpt_generator) count all_latents =
     (if 0 < stream_chunk_size \<and> stream_chunk_size \<le> int (count + 1)
      then (all_latents @ [latent])
           # emission_latents stream_chunk_size gpt_generator 0 (all_latents @ [latent])
      else emission_latents stream_chunk_size gpt_generator (count + 1) (all_latents @ [latent]))"

definition stream_decodes ::
  "('l list \<Rightarrow> 'g \<Rightarrow> real list) \<Rightarrow> 'g \<Rightarrow> int \<Rightarrow> ('x \<times> 'l list) list \<Rightarrow> real list list" where
  "stream_decodes hifigan spk stream_chunk_size gpt_generator =
     map (\<lambda>all_latents. hifigan (concat all_latents) spk)
       (emission_latents stream_chunk_size gpt_generator 0 [])"

definition chunk_deficit :: "real list option \<Rightarrow> nat \<Rightarrow> nat" where
  "chunk_deficit wav_gen_prev overlap_len =
     (case wav_gen_prev of None \<Rightarrow> overlap_len | Some prev \<Rightarrow> length prev)"

subsection \<open>Example collaborators\<close>

text \<open>
  Collaborators for the concrete runs below: a tokenizer that gives one token per
  character, a generator that returns the single code row \<open>codes\<close>, a teacher-forced
  pass that returns one latent sequence \<open>0, ..., n - 1\<close>, and a decoder that hands its
  latents back. The token limit is the default 402.
\<close>

definition demo_xtts :: "int list \<Rightarrow> nat \<Rightarrow> (unit, unit, nat, unit, nat list list) xtts" where
  "demo_xtts codes n =
     \<lparr>tokenizer_encode = (\<lambda>text language. map (\<lambda>c. 1) text),
      gpt_generate = (\<lambda>cond toks settings. [codes]),
      gpt_forward = (\<lambda>toks text_len gpt_codes expected_output_len cond. [[0..<n]]),
      hifigan_decoder = (\<lambda>latents g. latents),
      gpt_max_text_tokens = 402,
      gpt_code_stride_len = 1024\<rparr>"

text \<open>
  For the streaming runs: a decoder that gives three samples per latent frame, each the
  sum of the frame and the next one (it looks one frame ahead, as a convolution does),
  and a generator that yields the given frames one at a time.
\<close>

definition lookahead_decoder :: "real list \<Rightarrow> unit \<Rightarrow> real list" where
  "lookahead_decoder latents spk =
     concat (map (\<lambda>(a, b). [a + b, a + b, a + b]) (zip latents (tl latents @ [0])))"

definition demo_stream :: "real list \<Rightarrow> (unit, unit, nat, real, unit) xtts_stream" where
  "demo_stream frames =
     \<lparr>stream_tokenizer_encode = (\<lambda>text language. map (\<lambda>c. 1) text),
      gpt_get_generator = (\<lambda>cond toks settings. map (\<lambda>f. (0, [f])) frames),
      stream_hifigan_decoder = lookahead_decoder\<rparr>"

text \<open>
  An audio loader for the concrete runs: it knows the file \<^verbatim>\<open>ref.wav\<close> and every file whose
  name is one character, and gives the name back as the audio.
\<close>

definition name_loader :: "string \<Rightarrow> error + string" where
  "name_loader file_path = (if length file_path = 1 \<or> file_path = ''ref.wav'' then Inr file_path
                            else Inl LoadError)"

section \<open>Properties\<close>

subsection \<open>Slicing\<close>

lemma py_slice_prefix: "0 \<le> k \<Longrightarrow> py_slice xs 0 k = take (nat k) xs"
  by (simp add: py_slice_def py_bound_def Let_def min_def)

lemma py_slice_window:
  "py_slice xs (int a) (int b) = take (b - a) (drop a xs)"
proof (cases "a \<le> length xs")
  case True
  then show ?thesis
    by (cases "b \<le> length xs") (simp_all add: py_slice_def py_bound_def Let_def min_def)
next
  case False
  then show ?thesis
    by (simp add: py_slice_def py_bound_def Let_def min_def)
qed

subsection \<open>pad_or_truncate\<close>

lemma pad_or_truncate_cases:
  assumes "0 \<le> L"
  shows "pad_or_truncate t L =
           (if length t \<le> nat L then t @ replicate (nat L - length t) 0 else take (nat L) t)"
proof -
  from assms have "int (length t) = L \<longleftrightarrow> length t = nat L"
    and "int (length t) < L \<longleftrightarrow> length t < nat L"
    by auto
  moreover from assms have "nat (L - int (length t)) = nat L - length t"
    by simp
  ultimately show ?thesis
    using assms by (auto simp: pad_or_truncate_def Let_def py_slice_prefix)
qed

lemma diffusion_cond_chunk_nth:
  assumes "i < length (diffusion_cond_chunks audio)"
  shows "diffusion_cond_chunks audio ! i =
           take CHUNK_SIZE (drop (i * CHUNK_SIZE) audio)
           @ replicate (CHUNK_SIZE - (length audio - i * CHUNK_SIZE)) 0"
proof -
  let ?w = "take CHUNK_SIZE (drop (i * CHUNK_SIZE) audio)"
  from assms have i: "i < (length audio + CHUNK_SIZE - 1) div CHUNK_SIZE"
    by (simp add: diffusion_cond_chunks_def)
  have win: "py_slice audio (int (i * CHUNK_SIZE)) (int ((i + 1) * CHUNK_SIZE)) = ?w"
    using py_slice_window [of audio "i * CHUNK_SIZE" "(i + 1) * CHUNK_SIZE"] by simp
  have len: "length ?w = min CHUNK_SIZE (length audio - i * CHUNK_SIZE)"
    by simp
  then have "length ?w \<le> CHUNK_SIZE"
    by simp
  then have "pad_or_truncate ?w (int CHUNK_SIZE) = ?w @ replicate (CHUNK_SIZE - length ?w) 0"
    by (simp add: pad_or_truncate_cases del: length_take)
  moreover have "CHUNK_SIZE - length ?w = CHUNK_SIZE - (length audio - i * CHUNK_SIZE)"
    unfolding len by simp
  ultimately show ?thesis
    using i win by (simp add: diffusion_cond_chunks_def del: length_take)
qed

lemma CHUNK_SIZE_pos: "0 < CHUNK_SIZE"
  by (simp add: CHUNK_SIZE_def)

lemma ceil_div_bounds:
  fixes c n :: nat
  assumes "0 < c"
  shows "n \<le> (n + c - 1) div c * c" and "(n + c - 1) div c * c < n + c"
proof -
  have "n + c - 1 < c + (n + c - 1) div c * c"
    using assms dividend_less_div_times by blast
  then show "n \<le> (n + c - 1) div c * c"
    by simp
  have "(n + c - 1) div c * c \<le> n + c - 1"
    by (rule div_times_less_eq_dividend)
  with assms show "(n + c - 1) div c * c < n + c"
    by linarith
qed

lemma length_diffusion_cond_chunks:
  "length (diffusion_cond_chunks audio) = (length audio + CHUNK_SIZE - 1) div CHUNK_SIZE"
  by (simp add: diffusion_cond_chunks_def)

lemma concat_windows:
  "concat (map (\<lambda>i. take c (drop (i * c) xs)) [0..<m]) = take (m * c) xs"
proof (induction m)
  case 0
  then show ?case by simp
next
  case (Suc m)
  have "take (m * c + c) xs = take (m * c) xs @ take c (drop (m * c) xs)"
    by (rule take_add)
  with Suc show ?case
    by (simp add: add.commute)
qed

lemma concat_diffusion_cond_chunks:
  "concat (diffusion_cond_chunks audio)
     = audio @ replicate (length (diffusion_cond_chunks audio) * CHUNK_SIZE - length audio) 0"
proof -
  let ?c = CHUNK_SIZE and ?n = "length audio"
  let ?k = "length (diffusion_cond_chunks audio)"
  let ?f = "\<lambda>i. take ?c (drop (i * ?c) audio) @ replicate (?c - (?n - i * ?c)) (0::real)"
  have k: "?k = (?n + ?c - 1) div ?c"
    by (rule length_diffusion_cond_chunks)
  have lo: "?n \<le> ?k * ?c" and hi: "?k * ?c < ?n + ?c"
    unfolding k using ceil_div_bounds [OF CHUNK_SIZE_pos] by blast+
  have chunks: "diffusion_cond_chunks audio = map ?f [0..<?k]"
    by (rule nth_equalityI) (simp_all add: diffusion_cond_chunk_nth)
  show ?thesis
  proof (cases ?k)
    case 0
    with lo have "audio = []"
      by simp
    with 0 show ?thesis
      by simp
  next
    case (Suc m)
    from hi Suc have m: "m * ?c < ?n"
      by simp
    from lo Suc have rest: "?n - m * ?c \<le> ?c"
      by simp
    have full: "?f i = take ?c (drop (i * ?c) audio)" if "i < m" for i
    proof -
      from that have "Suc i * ?c \<le> m * ?c"
        by (simp add: Suc_leI del: mult_Suc)
      with m have "?c \<le> ?n - i * ?c"
        by simp
      then show ?thesis
        by simp
    qed
    have "map ?f [0..<m] = map (\<lambda>i. take ?c (drop (i * ?c) audio)) [0..<m]"
      by (rule map_cong) (simp_all add: full)
    then have "concat (map ?f [0..<m]) = take (m * ?c) audio"
      by (simp only: concat_windows)
    moreover have "?f m = drop (m * ?c) audio @ replicate (?c - (?n - m * ?c)) 0"
      using rest by simp
    moreover have "?c - (?n - m * ?c) = Suc m * ?c - ?n"
      using m by simp
    ultimately have "concat (map ?f [0..<Suc m]) = audio @ replicate (Suc m * ?c - ?n) 0"
      by (simp del: mult_Suc)
    with chunks Suc show ?thesis
      by simp
  qed
qed

text \<open>
  C6. For a target length \<open>L \<ge> 0\<close>, \<open>pad_or_truncate t L\<close> has exactly \<open>L\<close> elements: it
  is \<open>t\<close> when \<open>t\<close> has \<open>L\<close> elements, \<open>t\<close> followed by zeros when \<open>t\<close> is shorter, and the
  first \<open>L\<close> elements of \<open>t\<close> when \<open>t\<close> is longer. Hence, for the chunks that
  \<open>get_diffusion_cond_latents\<close> feeds to the mel extraction: their number is the length
  of the resampled audio divided by \<open>CHUNK_SIZE\<close> and rounded up, every chunk has exactly
  \<open>CHUNK_SIZE\<close> samples, the \<open>i\<close>-th chunk is the \<open>i\<close>-th window of the audio followed by
  the zeros that fill it up, and the chunks in a row are the whole audio followed by
  fewer than \<open>CHUNK_SIZE\<close> zeros: a partial final window is fed, padded, and no sample
  is dropped.
\<close>

theorem pad_or_truncate_exact:
  fixes resample :: "'a \<Rightarrow> int \<Rightarrow> int \<Rightarrow> real list" and wav_to_univnet_mel :: "real list \<Rightarrow> 'm"
    and audio :: 'a and sr :: int
  defines "audio_24k \<equiv> resample audio sr 24000"
  defines "fed \<equiv> fst (get_diffusion_cond_latents resample wav_to_univnet_mel audio sr)"
  assumes "0 \<le> L"
  shows "length (pad_or_truncate t L) = nat L
       \<and> (int (length t) = L \<longrightarrow> pad_or_truncate t L = t)
       \<and> (int (length t) < L \<longrightarrow>
            pad_or_truncate t L = t @ replicate (nat L - length t) 0)
       \<and> (L < int (length t) \<longrightarrow> pad_or_truncate t L = take (nat L) t)
       \<and> length fed = (length audio_24k + CHUNK_SIZE - 1) div CHUNK_SIZE
       \<and> length audio_24k \<le> length fed * CHUNK_SIZE
       \<and> length fed * CHUNK_SIZE < length audio_24k + CHUNK_SIZE
       \<and> (\<forall>i < length fed.
            length (fed ! i) = CHUNK_SIZE
          \<and> fed ! i =
              take CHUNK_SIZE (drop (i * CHUNK_SIZE) audio_24k)
              @ replicate (CHUNK_SIZE - (length audio_24k - i * CHUNK_SIZE)) 0)
       \<and> concat fed = audio_24k @ replicate (length fed * CHUNK_SIZE - length audio_24k) 0"
proof -
  have len: "length (pad_or_truncate t L) = nat L"
    using assms by (simp add: pad_or_truncate_cases)
  have eq: "int (length t) = L \<longrightarrow> pad_or_truncate t L = t"
    by (simp add: pad_or_truncate_def)
  have short: "int (length t) < L \<longrightarrow> pad_or_truncate t L = t @ replicate (nat L - length t) 0"
    using assms by (auto simp: pad_or_truncate_cases)
  have long: "L < int (length t) \<longrightarrow> pad_or_truncate t L = take (nat L) t"
    using assms by (auto simp: pad_or_truncate_cases)
  have fed: "fed = diffusion_cond_chunks audio_24k"
    by (simp add: fed_def audio_24k_def get_diffusion_cond_latents_def Let_def)
  have count: "length fed = (length audio_24k + CHUNK_SIZE - 1) div CHUNK_SIZE"
    unfolding fed by (rule length_diffusion_cond_chunks)
  have lo: "length audio_24k \<le> length fed * CHUNK_SIZE"
    and hi: "length fed * CHUNK_SIZE < length audio_24k + CHUNK_SIZE"
    unfolding count using ceil_div_bounds [OF CHUNK_SIZE_pos] by blast+
  have chunks: "\<forall>i < length fed.
            length (fed ! i) = CHUNK_SIZE
          \<and> fed ! i =
              take CHUNK_SIZE (drop (i * CHUNK_SIZE) audio_24k)
              @ replicate (CHUNK_SIZE - (length audio_24k - i * CHUNK_SIZE)) 0"
  proof (intro allI impI)
    fix i
    assume "i < length fed"
    then have nth: "fed ! i =
           take CHUNK_SIZE (drop (i * CHUNK_SIZE) audio_24k)
           @ replicate (CHUNK_SIZE - (length audio_24k - i * CHUNK_SIZE)) 0"
      unfolding fed by (rule diffusion_cond_chunk_nth)
    then show "length (fed ! i) = CHUNK_SIZE
          \<and> fed ! i =
              take CHUNK_SIZE (drop (i * CHUNK_SIZE) audio_24k)
              @ replicate (CHUNK_SIZE - (length audio_24k - i * CHUNK_SIZE)) 0"
      by simp
  qed
  have all: "concat fed = audio_24k @ replicate (length fed * CHUNK_SIZE - length audio_24k) 0"
    unfolding fed by (rule concat_diffusion_cond_chunks)
  from len eq short long count lo hi chunks all show ?thesis
    by blast
qed

text \<open>
  The theorem at a signal of three samples and the target lengths 5, 3 and 2, and at a
  reference of 150000 samples: two chunks are fed, the second being the last 47600
  samples followed by 54800 zeros.
\<close>

theorem pad_or_truncate_exact_witness:
  "pad_or_truncate [1, 2, 3] 5 = [1, 2, 3, 0, 0]
 \<and> pad_or_truncate [1, 2, 3] 3 = [1, 2, 3]
 \<and> pad_or_truncate [1, 2, 3] 2 = [1, 2]
 \<and> length (fst (get_diffusion_cond_latents (\<lambda>audio sr rate. audio) id (replicate 150000 1) 22050)) = 2
 \<and> fst (get_diffusion_cond_latents (\<lambda>audio sr rate. audio) id (replicate 150000 1) 22050) ! 0
     = replicate 102400 1
 \<and> fst (get_diffusion_cond_latents (\<lambda>audio sr rate. audio) id (replicate 150000 1) 22050) ! 1
     = replicate 47600 1 @ replicate 54800 0"
proof -
  let ?fed = "fst (get_diffusion_cond_latents (\<lambda>audio sr rate. audio) (id :: real list \<Rightarrow> real list)
                     (replicate 150000 1) 22050)"
  note inst = pad_or_truncate_exact [where resample = "\<lambda>audio sr rate. audio"
      and wav_to_univnet_mel = "id :: real list \<Rightarrow> real list" and audio = "replicate 150000 1"
      and sr = 22050]
  have "pad_or_truncate [1, 2, 3] 5 = [1, 2, 3] @ replicate (nat 5 - length [1, 2, 3::real]) 0"
    using inst [of 5 "[1, 2, 3]"] by simp
  then have p5: "pad_or_truncate [1, 2, 3] 5 = [1, 2, 3, 0, 0]"
    by (simp add: numeral_eq_Suc)
  have p3: "pad_or_truncate [1, 2, 3] 3 = [1, 2, 3]"
    using inst [of 3 "[1, 2, 3]"] by simp
  have "pad_or_truncate [1, 2, 3] 2 = take (nat 2) [1, 2, 3]"
    using inst [of 2 "[1, 2, 3]"] by simp
  then have p2: "pad_or_truncate [1, 2, 3] 2 = [1, 2]"
    by (simp add: numeral_eq_Suc)
  have n: "length ?fed = 2"
    using inst [of 0 "[]"] by (simp add: CHUNK_SIZE_def)
  from inst [of 0 "[]"] n have
    "\<forall>i < 2. ?fed ! i = take CHUNK_SIZE (drop (i * CHUNK_SIZE) (replicate 150000 1))
              @ replicate (CHUNK_SIZE - (length (replicate 150000 (1::real)) - i * CHUNK_SIZE)) 0"
    by simp
  then have "?fed ! 0 = replicate 102400 1" and "?fed ! 1 = replicate 47600 1 @ replicate 54800 0"
    by (simp_all add: CHUNK_SIZE_def)
  with p5 p3 p2 n show ?thesis
    by blast
qed

subsection \<open>The silence scan of inference\<close>

lemma silence_scan_none:
  "c \<le> 8 \<Longrightarrow> (\<forall>i. take 9 (drop i (replicate c silence_token @ cs)) \<noteq> replicate 9 silence_token)
     \<Longrightarrow> silence_scan cs k c = None"
proof (induction cs arbitrary: c k)
  case Nil
  then show ?case by simp
next
  case (Cons x cs)
  show ?case
  proof (cases "x = silence_token")
    case True
    have "c \<noteq> 8"
    proof
      assume "c = 8"
      with True have "take 9 (drop 0 (replicate c silence_token @ x # cs)) = replicate 9 silence_token"
        by (simp add: numeral_eq_Suc)
      with Cons.prems(2) show False by blast
    qed
    with Cons.prems(1) have c: "Suc c \<le> 8" by simp
    have "replicate (Suc c) silence_token @ cs = replicate c silence_token @ x # cs"
      using True by (simp add: replicate_app_Cons_same)
    with Cons.prems(2) have "\<forall>i. take 9 (drop i (replicate (Suc c) silence_token @ cs)) \<noteq> replicate 9 silence_token"
      by simp
    from Cons.IH [OF c this] c True show ?thesis
      by simp
  next
    case False
    have "\<forall>i. take 9 (drop i (replicate 0 silence_token @ cs)) \<noteq> replicate 9 silence_token"
    proof
      fix i
      from Cons.prems(2) have "take 9 (drop (i + Suc c) (replicate c silence_token @ x # cs)) \<noteq> replicate 9 silence_token"
        by blast
      then show "take 9 (drop i (replicate 0 silence_token @ cs)) \<noteq> replicate 9 silence_token"
        by simp
    qed
    from Cons.IH [OF _ this] False show ?thesis
      by simp
  qed
qed

lemma silence_scan_some:
  "c \<le> 8 \<Longrightarrow> take 9 (drop q (replicate c silence_token @ cs)) = replicate 9 silence_token
     \<Longrightarrow> (\<forall>i<q. take 9 (drop i (replicate c silence_token @ cs)) \<noteq> replicate 9 silence_token)
     \<Longrightarrow> silence_scan cs k c = Some (k + q + (8 - c))"
proof (induction cs arbitrary: c k q)
  case Nil
  from Nil.prems(2) have "length (take 9 (drop q (replicate c silence_token))) = 9"
    by simp
  with Nil.prems(1) show ?case by simp
next
  case (Cons x cs)
  show ?case
  proof (cases "x = silence_token")
    case True
    show ?thesis
    proof (cases "c = 8")
      case c8: True
      with True have "take 9 (drop 0 (replicate c silence_token @ x # cs)) = replicate 9 silence_token"
        by (simp add: numeral_eq_Suc)
      with Cons.prems(3) have "q = 0"
        by (metis gr0I)
      with c8 True show ?thesis by simp
    next
      case False
      with Cons.prems(1) have c: "Suc c \<le> 8" by simp
      have eq: "replicate (Suc c) silence_token @ cs = replicate c silence_token @ x # cs"
        using True by (simp add: replicate_app_Cons_same)
      have run: "take 9 (drop q (replicate (Suc c) silence_token @ cs)) = replicate 9 silence_token"
        using Cons.prems(2) unfolding eq .
      have first: "\<forall>i<q. take 9 (drop i (replicate (Suc c) silence_token @ cs)) \<noteq> replicate 9 silence_token"
        using Cons.prems(3) unfolding eq .
      have "silence_scan cs (Suc k) (Suc c) = Some (Suc k + q + (8 - Suc c))"
        by (rule Cons.IH [OF c run first])
      with c True show ?thesis by simp
    qed
  next
    case False
    have q: "Suc c \<le> q"
    proof (rule ccontr)
      assume "\<not> Suc c \<le> q"
      then have qc: "q \<le> c" by simp
      with Cons.prems(1) have lt: "c - q < 9" by simp
      have "take 9 (drop q (replicate c silence_token @ x # cs)) ! (c - q) = x"
        using qc lt by (simp add: nth_append)
      moreover have "replicate 9 silence_token ! (c - q) = silence_token"
        using lt by simp
      ultimately show False
        using Cons.prems(2) False by simp
    qed
    then obtain q' where q': "q = q' + Suc c"
      by (metis le_add_diff_inverse2)
    from Cons.prems(2) q' have run: "take 9 (drop q' (replicate 0 silence_token @ cs)) = replicate 9 silence_token"
      by simp
    have first: "\<forall>i<q'. take 9 (drop i (replicate 0 silence_token @ cs)) \<noteq> replicate 9 silence_token"
    proof (intro allI impI)
      fix i assume "i < q'"
      with q' have "i + Suc c < q" by simp
      with Cons.prems(3) have "take 9 (drop (i + Suc c) (replicate c silence_token @ x # cs)) \<noteq> replicate 9 silence_token"
        by blast
      then show "take 9 (drop i (replicate 0 silence_token @ cs)) \<noteq> replicate 9 silence_token"
        by simp
    qed
    from Cons.IH [OF _ run first, of "Suc k"] have "silence_scan cs (Suc k) 0 = Some (Suc k + q' + 8)"
      by simp
    with False q' Cons.prems(1) show ?thesis by simp
  qed
qed

lemma demo_sel:
  "tokenizer_encode (demo_xtts codes n) = (\<lambda>text language. map (\<lambda>c. 1) text)"
  "gpt_generate (demo_xtts codes n) = (\<lambda>cond toks settings. [codes])"
  "gpt_forward (demo_xtts codes n) = (\<lambda>toks text_len gpt_codes expected_output_len cond. [[0..<n]])"
  "hifigan_decoder (demo_xtts codes n) = (\<lambda>latents g. latents)"
  "gpt_max_text_tokens (demo_xtts codes n) = 402"
  "gpt_code_stride_len (demo_xtts codes n) = 1024"
  by (simp_all add: demo_xtts_def)

lemma py_slice_take: "py_slice xs 0 (int k) = take k xs"
  using py_slice_window [of xs 0 k] by simp

text \<open>
  C1 (as amended). When the token check passes and row 0 of the generated codes has its
  first window of nine consecutive silence codes (83) at position \<open>p\<close>, the scan breaks
  at index \<open>p + 8\<close>, where the ninth consecutive silence code stands, and every returned
  latent sequence is cut to its first \<open>p + 8\<close> frames: the eight silence frames before
  the break are kept. When no nine consecutive codes are silence codes (every run has
  at most eight), the scan runs to the end and the latents are returned as they are.
\<close>

theorem inference_silence_truncation:
  fixes self :: "('c, 's, 'l, 'g, 'w) xtts"
    and strip_lower :: "string \<Rightarrow> string" and sentence language :: string
    and cond :: 'c and settings :: 's
  defines "toks \<equiv> tokenizer_encode self (strip_lower sentence) language"
  defines "lat \<equiv> gpt_forward self toks (int (length toks)) (gpt_generate self cond toks settings)
                    (codes_shape_last (gpt_generate self cond toks settings) * gpt_code_stride_len self) cond"
  assumes ok: "int (length toks) < gpt_max_text_tokens self"
    and codes: "gpt_generate self cond toks settings = codes # rows"
  shows "(take 9 (drop p codes) = replicate 9 silence_token
          \<and> (\<forall>i<p. take 9 (drop i codes) \<noteq> replicate 9 silence_token)
          \<longrightarrow> silence_scan codes 0 0 = Some (p + 8)
            \<and> snd (inference strip_lower self sentence language cond spk settings decoder)
                = Inr \<lparr>wav = hifigan_decoder self (map (take (p + 8)) lat) spk,
                       gpt_latents = map (take (p + 8)) lat, speaker_embedding = spk\<rparr>)
       \<and> ((\<forall>i. take 9 (drop i codes) \<noteq> replicate 9 silence_token)
          \<longrightarrow> silence_scan codes 0 0 = None
            \<and> snd (inference strip_lower self sentence language cond spk settings decoder)
                = Inr \<lparr>wav = hifigan_decoder self lat spk,
                       gpt_latents = lat, speaker_embedding = spk\<rparr>)"
proof (intro conjI impI)
  assume run: "take 9 (drop p codes) = replicate 9 silence_token
          \<and> (\<forall>i<p. take 9 (drop i codes) \<noteq> replicate 9 silence_token)"
  then show scan: "silence_scan codes 0 0 = Some (p + 8)"
    using silence_scan_some [of 0 p codes 0] by simp
  then have "truncate_silence (codes # rows) lat = map (take (p + 8)) lat"
    by (simp add: truncate_silence_def py_slice_prefix nat_add_distrib)
  with ok codes
  show "snd (inference strip_lower self sentence language cond spk settings decoder)
                = Inr \<lparr>wav = hifigan_decoder self (map (take (p + 8)) lat) spk,
                       gpt_latents = map (take (p + 8)) lat, speaker_embedding = spk\<rparr>"
    by (simp add: inference_def Let_def toks_def lat_def)
next
  assume none: "\<forall>i. take 9 (drop i codes) \<noteq> replicate 9 silence_token"
  then show scan: "silence_scan codes 0 0 = None"
    using silence_scan_none [of 0 codes 0] by simp
  then have "truncate_silence (codes # rows) lat = lat"
    by (simp add: truncate_silence_def)
  with ok codes
  show "snd (inference strip_lower self sentence language cond spk settings decoder)
                = Inr \<lparr>wav = hifigan_decoder self lat spk,
                       gpt_latents = lat, speaker_embedding = spk\<rparr>"
    by (simp add: inference_def Let_def toks_def lat_def)
qed

text \<open>
  The amended C1 at a run of nine silence codes that starts at position 2 (twelve
  latent frames, ten returned) and at a run of eight (nothing cut).
\<close>

theorem inference_silence_truncation_witness:
  "snd (inference id (demo_xtts ([5, 7] @ replicate 9 83 @ [4]) 12) ''hi'' ''en'' () () () ''hifigan'')
     = Inr \<lparr>wav = [[0, 1, 2, 3, 4, 5, 6, 7, 8, 9]],
            gpt_latents = [[0, 1, 2, 3, 4, 5, 6, 7, 8, 9]], speaker_embedding = ()\<rparr>
 \<and> snd (inference id (demo_xtts (replicate 8 83 @ [4]) 3) ''hi'' ''en'' () () () ''hifigan'')
     = Inr \<lparr>wav = [[0, 1, 2]], gpt_latents = [[0, 1, 2]], speaker_embedding = ()\<rparr>"
proof -
  let ?run = "[5, 7] @ replicate 9 83 @ [4::int]"
  let ?quiet = "replicate 8 83 @ [4::int]"
  have ok: "int (length (tokenizer_encode (demo_xtts cs n) (id ''hi'') ''en''))
              < gpt_max_text_tokens (demo_xtts cs n)" for cs n
    by (simp add: demo_sel)
  have gen: "gpt_generate (demo_xtts cs n) () (tokenizer_encode (demo_xtts cs n) (id ''hi'') ''en'') ()
              = cs # []" for cs n
    by (simp add: demo_sel)
  have run: "take 9 (drop 2 ?run) = replicate 9 silence_token"
    by (simp add: silence_token_def numeral_eq_Suc)
  have first: "\<forall>i<2. take 9 (drop i ?run) \<noteq> replicate 9 silence_token"
    by (simp add: silence_token_def numeral_eq_Suc less_Suc_eq)
  have quiet: "\<forall>i. take 9 (drop i ?quiet) \<noteq> replicate 9 silence_token"
  proof
    fix i
    show "take 9 (drop i ?quiet) \<noteq> replicate 9 silence_token"
    proof (cases i)
      case 0
      then show ?thesis by (simp add: silence_token_def numeral_eq_Suc)
    next
      case (Suc j)
      have "length (take 9 (drop i ?quiet)) \<noteq> length (replicate 9 silence_token)"
        using Suc by simp
      then show ?thesis by metis
    qed
  qed
  have upt12: "[0..<12] = [0, 1, 2, 3, 4, 5, 6, 7, 8, 9, 10, 11]"
    by (simp add: numeral_eq_Suc upt_rec)
  have upt3: "[0..<3] = [0, 1, 2]"
    by (simp add: numeral_eq_Suc upt_rec)
  from inference_silence_truncation [where self = "demo_xtts ?run 12" and strip_lower = id
      and sentence = "''hi''" and language = "''en''" and cond = "()" and settings = "()"
      and codes = ?run and rows = "[]" and p = 2 and spk = "()" and decoder = "''hifigan''"]
    ok gen run first
  have "snd (inference id (demo_xtts ?run 12) ''hi'' ''en'' () () () ''hifigan'')
     = Inr \<lparr>wav = [[0, 1, 2, 3, 4, 5, 6, 7, 8, 9]],
            gpt_latents = [[0, 1, 2, 3, 4, 5, 6, 7, 8, 9]], speaker_embedding = ()\<rparr>"
    by (simp add: demo_sel upt12)
  moreover
  from inference_silence_truncation [where self = "demo_xtts ?quiet 3" and strip_lower = id
      and sentence = "''hi''" and language = "''en''" and cond = "()" and settings = "()"
      and codes = ?quiet and rows = "[]" and p = 0 and spk = "()" and decoder = "''hifigan''"]
    ok gen quiet
  have "snd (inference id (demo_xtts ?quiet 3) ''hi'' ''en'' () () () ''hifigan'')
     = Inr \<lparr>wav = [[0, 1, 2]], gpt_latents = [[0, 1, 2]], speaker_embedding = ()\<rparr>"
    by (simp add: demo_sel upt3)
  ultimately show ?thesis
    by simp
qed

text \<open>
  C1 as stated fails: the codes 5, 7, then nine times 83, then 4 have their first run of
  more than eight silence codes at position \<open>p = 2\<close>, of length nine, and of the twelve
  latent frames ten are returned, not two.
\<close>

theorem inference_silence_truncation_counterexample:
  "[5, 7] @ replicate 9 83 @ [4]
     = [5, 7, silence_token, silence_token, silence_token, silence_token, silence_token,
        silence_token, silence_token, silence_token, silence_token, 4]
 \<and> snd (inference id (demo_xtts ([5, 7] @ replicate 9 83 @ [4]) 12) ''hi'' ''en'' () () ()
          ''hifigan'')
     = Inr \<lparr>wav = [[0, 1, 2, 3, 4, 5, 6, 7, 8, 9]],
            gpt_latents = [[0, 1, 2, 3, 4, 5, 6, 7, 8, 9]], speaker_embedding = ()\<rparr>
 \<and> length [0, 1, 2, 3, 4, 5, 6, 7, 8, 9 :: nat] \<noteq> 2"
  by (simp add: inference_def Let_def demo_sel truncate_silence_def silence_token_def
        codes_shape_last_def py_slice_def py_bound_def numeral_eq_Suc upt_rec)

subsection \<open>The token limit of inference\<close>

text \<open>
  C5. When the token count of the text is at least \<open>gpt_max_text_tokens\<close>, \<open>inference\<close>
  fails with the assertion error and has called no network; when it is below, the call
  goes through generation, the teacher-forced pass and the decoder and returns a result.
  A count equal to the maximum is the first case, a count one below it the second.
\<close>

theorem inference_token_limit:
  fixes self :: "('c, 's, 'l, 'g, 'w) xtts"
    and strip_lower :: "string \<Rightarrow> string" and sentence language :: string
  defines "toks \<equiv> tokenizer_encode self (strip_lower sentence) language"
  shows "(gpt_max_text_tokens self \<le> int (length toks) \<longrightarrow>
            inference strip_lower self sentence language cond spk settings decoder
              = ([], Inl AssertionError))
       \<and> (int (length toks) < gpt_max_text_tokens self \<longrightarrow>
            (\<exists>out. inference strip_lower self sentence language cond spk settings decoder
              = ([Gpt_generate, Gpt_forward, Hifigan_decoder], Inr out)))"
  by (simp add: inference_def Let_def toks_def)

text \<open>C5 at the default limit 402: a text of 402 tokens fails, one of 401 tokens is decoded.\<close>

theorem inference_token_limit_witness:
  "inference id (demo_xtts [] 0) (replicate 402 CHR ''a'') ''en'' () () () ''hifigan''
     = ([], Inl AssertionError)
 \<and> fst (inference id (demo_xtts [] 0) (replicate 401 CHR ''a'') ''en'' () () () ''hifigan'')
     = [Gpt_generate, Gpt_forward, Hifigan_decoder]"
proof -
  have "gpt_max_text_tokens (demo_xtts [] 0)
          \<le> int (length (tokenizer_encode (demo_xtts [] 0) (id (replicate 402 CHR ''a'')) ''en''))"
    by (simp add: demo_sel)
  with inference_token_limit [of "demo_xtts [] 0" id "replicate 402 CHR ''a''" "''en''" "()" "()" "()" "''hifigan''"]
  have fails: "inference id (demo_xtts [] 0) (replicate 402 CHR ''a'') ''en'' () () () ''hifigan''
     = ([], Inl AssertionError)"
    by blast
  have "int (length (tokenizer_encode (demo_xtts [] 0) (id (replicate 401 CHR ''a'')) ''en''))
          < gpt_max_text_tokens (demo_xtts [] 0)"
    by (simp add: demo_sel)
  with inference_token_limit [of "demo_xtts [] 0" id "replicate 401 CHR ''a''" "''en''" "()" "()" "()" "''hifigan''"]
  have "\<exists>out. inference id (demo_xtts [] 0) (replicate 401 CHR ''a'') ''en'' () () () ''hifigan''
     = ([Gpt_generate, Gpt_forward, Hifigan_decoder], Inr out)"
    by blast
  then have "fst (inference id (demo_xtts [] 0) (replicate 401 CHR ''a'') ''en'' () () () ''hifigan'')
     = [Gpt_generate, Gpt_forward, Hifigan_decoder]"
    by auto
  with fails show ?thesis
    by simp
qed

subsection \<open>The decoder setting of inference\<close>

text \<open>
  C2. The claim says that \<open>decoder = ''diffusion''\<close> selects the diffusion path. In the
  code the setting is not read: the call with \<open>''diffusion''\<close> makes the same network
  calls and returns the same waveform as the call with \<open>''hifigan''\<close>, which is one pass
  of the HiFi-GAN decoder over the latents and the speaker embedding.
\<close>

theorem inference_decoder_ignored:
  "inference strip_lower self sentence language cond spk settings ''diffusion''
     = inference strip_lower self sentence language cond spk settings ''hifigan''"
  by (simp add: inference_def)

subsection \<open>The reference paths of get_conditioning_latents\<close>

lemma load_clips_prefix: "prefix (fst (load_clips torchaudio_load prepare ps)) ps"
  by (induction ps) (auto split: sum.splits prod.splits)

lemma load_clips_all:
  "\<forall>p \<in> set ps. \<exists>a. torchaudio_load p = Inr a \<Longrightarrow>
     load_clips torchaudio_load prepare ps
       = (ps, Inr (map (\<lambda>p. prepare (projr (torchaudio_load p))) ps))"
  by (induction ps) auto

lemma load_clips_first:
  "ps \<noteq> [] \<Longrightarrow> hd (fst (load_clips torchaudio_load prepare ps)) = hd ps"
  by (cases ps) (auto split: sum.splits prod.splits)

lemma fst_get_conditioning_latents:
  "fst (get_conditioning_latents torchaudio_load prepare get_speaker_embedding
          get_gpt_cond_latents mean_embedding audio_path)
     = fst (load_clips torchaudio_load prepare (audio_paths_of audio_path))"
  by (simp add: get_conditioning_latents_def Let_def split: prod.splits sum.splits)

text \<open>
  C9 (as amended). For an \<open>audio_path\<close> that is one string \<open>s\<close>, the paths that
  \<open>get_conditioning_latents\<close> gives to the audio loader are one-character paths, the
  characters of \<open>s\<close> in order, starting with the first; the path \<open>s\<close> itself is never loaded
  unless it has one character; and when every one-character file loads, all \<open>n\<close> of them
  are loaded and the result is computed from these \<open>n\<close> clips. A single path that loads
  is handled as one clip when it is the one element of a list, and likewise when it is
  the one element of a tuple.
\<close>

theorem audio_path_string_is_split:
  fixes torchaudio_load :: "string \<Rightarrow> error + 'a" and prepare :: "'a \<Rightarrow> 'b"
    and get_speaker_embedding :: "'b \<Rightarrow> 'g" and get_gpt_cond_latents :: "'b list \<Rightarrow> 'c"
    and mean_embedding :: "'g list \<Rightarrow> 'g"
  defines "run \<equiv> get_conditioning_latents torchaudio_load prepare get_speaker_embedding
                    get_gpt_cond_latents mean_embedding"
  defines "clip \<equiv> \<lambda>file_path. prepare (projr (torchaudio_load file_path))"
  shows "prefix (fst (run (Py_str s))) (map (\<lambda>c. [c]) s)
       \<and> (s \<noteq> [] \<longrightarrow> hd (fst (run (Py_str s))) = [hd s])
       \<and> (length s \<noteq> 1 \<longrightarrow> s \<notin> set (fst (run (Py_str s))))
       \<and> ((\<forall>c \<in> set s. \<exists>a. torchaudio_load [c] = Inr a) \<and> s \<noteq> [] \<longrightarrow>
            run (Py_str s)
              = (map (\<lambda>c. [c]) s,
                 Inr (get_gpt_cond_latents (map (\<lambda>c. clip [c]) s),
                      mean_embedding (map (\<lambda>c. get_speaker_embedding (clip [c])) s))))
       \<and> ((\<exists>a. torchaudio_load s = Inr a) \<longrightarrow>
            run (Py_list [s])
              = ([s], Inr (get_gpt_cond_latents [clip s], mean_embedding [get_speaker_embedding (clip s)]))
          \<and> run (Py_tuple [s]) = run (Py_list [s]))"
proof (intro conjI impI)
  show pre: "prefix (fst (run (Py_str s))) (map (\<lambda>c. [c]) s)"
    by (simp add: run_def fst_get_conditioning_latents load_clips_prefix)
  show "length s \<noteq> 1 \<Longrightarrow> s \<notin> set (fst (run (Py_str s)))"
  proof
    assume "length s \<noteq> 1" and "s \<in> set (fst (run (Py_str s)))"
    with pre have "s \<in> set (map (\<lambda>c. [c]) s)"
      using set_mono_prefix by blast
    then have "length s = 1"
      by auto
    with \<open>length s \<noteq> 1\<close> show False
      by simp
  qed
next
  assume "s \<noteq> []"
  then show "hd (fst (run (Py_str s))) = [hd s]"
    by (simp add: run_def fst_get_conditioning_latents load_clips_first hd_map)
next
  assume a: "(\<forall>c \<in> set s. \<exists>a. torchaudio_load [c] = Inr a) \<and> s \<noteq> []"
  then have "\<forall>p \<in> set (map (\<lambda>c. [c]) s). \<exists>a. torchaudio_load p = Inr a"
    by auto
  from load_clips_all [OF this, of prepare] a
  show "run (Py_str s)
              = (map (\<lambda>c. [c]) s,
                 Inr (get_gpt_cond_latents (map (\<lambda>c. clip [c]) s),
                      mean_embedding (map (\<lambda>c. get_speaker_embedding (clip [c])) s)))"
    by (simp add: run_def clip_def get_conditioning_latents_def comp_def)
next
  assume "\<exists>a. torchaudio_load s = Inr a"
  then show "run (Py_list [s])
              = ([s], Inr (get_gpt_cond_latents [clip s], mean_embedding [get_speaker_embedding (clip s)]))"
    by (auto simp: run_def clip_def get_conditioning_latents_def)
next
  show "run (Py_tuple [s]) = run (Py_list [s])"
    by (simp add: run_def get_conditioning_latents_def)
qed

text \<open>
  The amended C9 with the loader above: the string \<^verbatim>\<open>ab\<close> is loaded as the files \<^verbatim>\<open>a\<close> and
  \<^verbatim>\<open>b\<close>, the list holding \<^verbatim>\<open>ref.wav\<close> as that one file, and the string \<^verbatim>\<open>ref.wav\<close> never
  as that file.
\<close>

theorem audio_path_string_is_split_witness:
  "get_conditioning_latents name_loader id length (\<lambda>clips. clips) sum_list (Py_str ''ab'')
     = ([''a'', ''b''], Inr ([''a'', ''b''], 2))
 \<and> get_conditioning_latents name_loader id length (\<lambda>clips. clips) sum_list (Py_list [''ref.wav''])
     = ([''ref.wav''], Inr ([''ref.wav''], 7))
 \<and> ''ref.wav'' \<notin> set (fst (get_conditioning_latents name_loader id length (\<lambda>clips. clips)
                                sum_list (Py_str ''ref.wav'')))"
proof -
  note inst = audio_path_string_is_split [where torchaudio_load = name_loader and prepare = id
      and get_speaker_embedding = length and get_gpt_cond_latents = "\<lambda>clips. clips"
      and mean_embedding = sum_list]
  have ok: "(\<forall>c \<in> set ''ab''. \<exists>a. name_loader [c] = Inr a) \<and> ''ab'' \<noteq> []"
    by (simp add: name_loader_def)
  have ref: "\<exists>a. name_loader ''ref.wav'' = Inr a"
    by (simp add: name_loader_def)
  have "get_conditioning_latents name_loader id length (\<lambda>clips. clips) sum_list (Py_str ''ab'')
     = ([''a'', ''b''], Inr ([''a'', ''b''], 2))"
    using inst [of "''ab''"] ok by (simp add: name_loader_def)
  moreover
  have "get_conditioning_latents name_loader id length (\<lambda>clips. clips) sum_list (Py_list [''ref.wav''])
     = ([''ref.wav''], Inr ([''ref.wav''], 7))"
    using inst [of "''ref.wav''"] ref by (simp add: name_loader_def)
  moreover
  have "''ref.wav'' \<notin> set (fst (get_conditioning_latents name_loader id length (\<lambda>clips. clips)
                                sum_list (Py_str ''ref.wav'')))"
    using inst [of "''ref.wav''"] by simp
  ultimately show ?thesis
    by blast
qed

text \<open>
  C9 as stated fails in its last clause: a single reference file is handled as one clip
  also when it is passed inside a tuple, and when it is a string of one character.
\<close>

theorem audio_path_string_is_split_counterexample:
  "get_conditioning_latents name_loader id length (\<lambda>clips. clips) sum_list (Py_tuple [''ref.wav''])
     = ([''ref.wav''], Inr ([''ref.wav''], 7))
 \<and> get_conditioning_latents name_loader id length (\<lambda>clips. clips) sum_list (Py_str ''r'')
     = ([''r''], Inr ([''r''], 1))"
  by (simp add: get_conditioning_latents_def name_loader_def)

subsection \<open>The checkpoint keys\<close>

lemma str_remove_absent: "\<not> sublist old s \<Longrightarrow> str_remove old s = s"
proof (induction s)
  case Nil
  then show ?case by simp
next
  case (Cons c cs)
  then have "\<not> prefix old (c # cs)" and "\<not> sublist old cs"
    by (auto simp: sublist_Cons_right)
  with Cons.IH show ?case by simp
qed

lemma str_remove_xtts_prefix:
  assumes "prefix ''xtts.'' key" and "clean_xtts_key key"
  shows "str_remove ''xtts.'' key = drop 5 key"
proof -
  from assms(1) obtain c cs where key: "key = c # cs"
    by (cases key) auto
  from assms have "\<not> sublist ''xtts.'' (drop 5 key)"
    by (simp add: clean_xtts_key_def)
  then have "str_remove ''xtts.'' (drop 5 key) = drop 5 key"
    by (rule str_remove_absent)
  with assms(1) show ?thesis
    unfolding key by (simp add: eval_nat_numeral)
qed

lemma strip_xtts_prefix_idem:
  assumes "clean_xtts_key key"
  shows "strip_xtts_prefix (strip_xtts_prefix key) = strip_xtts_prefix key"
proof (cases "prefix ''xtts.'' key")
  case True
  with assms have "\<not> sublist ''xtts.'' (drop 5 key)"
    by (simp add: clean_xtts_key_def)
  then have "\<not> prefix ''xtts.'' (drop 5 key)"
    by (meson prefix_imp_sublist)
  with True show ?thesis
    by (simp add: strip_xtts_prefix_def)
next
  case False
  then show ?thesis
    by (simp add: strip_xtts_prefix_def)
qed

lemma strip_xtts_prefix_neq:
  "prefix ''xtts.'' key \<Longrightarrow> strip_xtts_prefix key \<noteq> key"
proof
  assume p: "prefix ''xtts.'' key" and "strip_xtts_prefix key = key"
  then have "length (drop 5 key) = length key"
    by (simp add: strip_xtts_prefix_def)
  moreover from p have "5 \<le> length key"
    using prefix_length_le by fastforce
  ultimately show False
    by simp
qed

lemma remapped_checkpoint_keys:
  "fst ` set (remapped_checkpoint xs) \<subseteq> strip_xtts_prefix ` fst ` set xs"
  by (auto simp: remapped_checkpoint_def image_iff) force

lemma remapped_checkpoint_snoc:
  "remapped_checkpoint (xs @ [(k, v)]) =
     remapped_checkpoint xs
     @ (if first_component (strip_xtts_prefix k) \<in> set ignore_keys then []
        else [(strip_xtts_prefix k, v)])"
  by (simp add: remapped_checkpoint_def)

lemma process_key_step:
  assumes look: "map_of ck k = Some v" and clean: "clean_xtts_key k"
  shows "\<exists>ck'. (case convert_key k ck of Inl e \<Rightarrow> Inl e
               | Inr (key, c) \<Rightarrow> remove_unused key c) = Inr ck'
             \<and> map_of ck' =
                 (if first_component (strip_xtts_prefix k) \<in> set ignore_keys
                  then (map_of ck)(k := None, strip_xtts_prefix k := None)
                  else (map_of ck)(k := None, strip_xtts_prefix k \<mapsto> v))"
proof (cases "prefix ''xtts.'' k")
  case True
  let ?n = "strip_xtts_prefix k"
  from True clean have new: "str_remove ''xtts.'' k = ?n"
    by (simp add: str_remove_xtts_prefix strip_xtts_prefix_def)
  from True have neq: "?n \<noteq> k"
    by (rule strip_xtts_prefix_neq)
  from look have "k \<in> fst ` set ck"
    by (metis map_of_eq_None_iff option.distinct(1))
  then have kin: "k \<in> fst ` set (AList.update ?n v ck)"
    by (simp add: dom_update)
  have conv: "convert_key k ck = Inr (?n, AList.delete k (AList.update ?n v ck))"
    using True look kin by (simp add: convert_key_def new py_del_def Let_def)
  have "?n \<in> set (map fst (AList.update ?n v ck))"
    by (simp add: update_keys)
  with neq have "?n \<in> set (map fst (AList.delete k (AList.update ?n v ck)))"
    by (simp add: delete_keys)
  then have nin: "?n \<in> fst ` set (AList.delete k (AList.update ?n v ck))"
    by simp
  show ?thesis
    using neq nin
    by (auto simp: conv remove_unused_def py_del_def delete_conv' update_conv' fun_eq_iff)
next
  case False
  then have same: "strip_xtts_prefix k = k"
    by (simp add: strip_xtts_prefix_def)
  from look have kin: "k \<in> fst ` set ck"
    by (metis map_of_eq_None_iff option.distinct(1))
  from False have conv: "convert_key k ck = Inr (k, ck)"
    by (simp add: convert_key_def)
  show ?thesis
    using kin look
    by (auto simp: conv same remove_unused_def py_del_def delete_conv' fun_eq_iff)
qed

lemma compat_loop_invariant:
  assumes "distinct (map (strip_xtts_prefix \<circ> fst) (done @ rest))"
    and "\<forall>k \<in> fst ` set (done @ rest). clean_xtts_key k"
    and "map_of ck = map_of (remapped_checkpoint done) ++ map_of rest"
  shows "\<exists>d. compat_loop (map fst rest) ck = Inr d
           \<and> map_of d = map_of (remapped_checkpoint (done @ rest))"
  using assms
proof (induction rest arbitrary: "done" ck)
  case Nil
  then show ?case by simp
next
  case (Cons kv rest)
  obtain k v where kv: "kv = (k, v)"
    by (cases kv)
  let ?S = strip_xtts_prefix
  let ?m = "map_of ck"
  from Cons.prems(3) have look: "?m k = Some v"
    by (simp add: kv map_add_def)
  from Cons.prems(2) have clean: "clean_xtts_key k"
    by (simp add: kv)
  from Cons.prems(1) have inj_done: "?S k \<notin> ?S ` fst ` set done"
    and inj_rest: "?S k \<notin> ?S ` fst ` set rest"
    by (auto simp: kv image_iff)
  have idem: "?S (?S k') = ?S k'" if "k' \<in> fst ` set (done @ kv # rest)" for k'
    using Cons.prems(2) that strip_xtts_prefix_idem by blast
  have f1: "k \<notin> fst ` set rest"
    using inj_rest by blast
  have f2: "?S k \<notin> fst ` set rest"
  proof
    assume "?S k \<in> fst ` set rest"
    then have "?S (?S k) \<in> ?S ` fst ` set rest"
      by blast
    with idem [of k] inj_rest show False
      by (simp add: kv)
  qed
  have f3: "k \<notin> fst ` set (remapped_checkpoint done)"
  proof
    assume "k \<in> fst ` set (remapped_checkpoint done)"
    with remapped_checkpoint_keys obtain k' where k': "k' \<in> fst ` set done" "k = ?S k'"
      by blast
    then have "?S k = ?S k'"
      using idem [of k'] by auto
    with k'(1) inj_done show False
      by blast
  qed
  have f4: "?S k \<notin> fst ` set (remapped_checkpoint done)"
    using remapped_checkpoint_keys inj_done by blast
  from process_key_step [OF look clean] obtain ck' where
    step: "(case convert_key k ck of Inl e \<Rightarrow> Inl e
            | Inr (key, c) \<Rightarrow> remove_unused key c) = Inr ck'"
    and m': "map_of ck' =
                 (if first_component (?S k) \<in> set ignore_keys
                  then ?m(k := None, ?S k := None)
                  else ?m(k := None, ?S k \<mapsto> v))"
    by blast
  have none: "map_of rest k = None" "map_of rest (?S k) = None"
    "map_of (remapped_checkpoint done) k = None"
    "map_of (remapped_checkpoint done) (?S k) = None"
    using f1 f2 f3 f4 by (simp_all add: map_of_eq_None_iff)
  have inv: "map_of ck' = map_of (remapped_checkpoint (done @ [kv])) ++ map_of rest"
  proof
    fix x
    show "map_of ck' x = (map_of (remapped_checkpoint (done @ [kv])) ++ map_of rest) x"
      using none Cons.prems(3)
      by (auto simp: m' kv remapped_checkpoint_snoc map_add_def split: option.splits)
  qed
  from Cons.prems(1,2) have "distinct (map (?S \<circ> fst) ((done @ [kv]) @ rest))"
    and "\<forall>k \<in> fst ` set ((done @ [kv]) @ rest). clean_xtts_key k"
    by (simp_all only: append_assoc append_Cons append_Nil)
  from Cons.IH [OF this inv] obtain d where
    "compat_loop (map fst rest) ck' = Inr d"
    "map_of d = map_of (remapped_checkpoint ((done @ [kv]) @ rest))"
    by blast
  moreover have "compat_loop (map fst (kv # rest)) ck = compat_loop (map fst rest) ck'"
    using step by (auto simp: kv split: sum.splits prod.splits)
  ultimately show ?case
    by simp
qed

text \<open>
  C7 (as amended). For a checkpoint in which \<^verbatim>\<open>xtts.\<close> occurs in a key at most as its
  leading prefix and no two keys are the same once that prefix is taken off, the
  function returns a dictionary, and that dictionary maps exactly the keys of the
  specification: each key without its prefix \<^verbatim>\<open>xtts.\<close>, none of the keys whose first
  component is \<^verbatim>\<open>torch_mel_spectrogram_style_encoder\<close>, \<^verbatim>\<open>torch_mel_spectrogram_dvae\<close> or
  \<^verbatim>\<open>dvae\<close>, and each kept key with the tensor it had.
\<close>

theorem checkpoint_keys_remapped:
  assumes "distinct (map (strip_xtts_prefix \<circ> fst) checkpoint)"
    and "\<forall>key \<in> fst ` set checkpoint. clean_xtts_key key"
  shows "\<exists>d. get_compatible_checkpoint_state_dict checkpoint = Inr d
           \<and> map_of d = map_of (remapped_checkpoint checkpoint)"
  using compat_loop_invariant [of "[]" checkpoint checkpoint] assms
  by (simp add: get_compatible_checkpoint_state_dict_def remapped_checkpoint_def)

lemmas checkpoint_eval =
  get_compatible_checkpoint_state_dict_def convert_key_def remove_unused_def py_del_def
  first_component_def ignore_keys_def Let_def

text \<open>
  The amended C7 at a checkpoint of four entries: two keys lose their prefix, and the
  two \<^verbatim>\<open>dvae\<close> entries are dropped.
\<close>

theorem checkpoint_keys_remapped_witness:
  "\<exists>d. get_compatible_checkpoint_state_dict
          [(''xtts.gpt.w'', 10::nat), (''dvae.w'', 20), (''hifigan.b'', 30), (''xtts.dvae.c'', 40)]
        = Inr d
      \<and> map_of d ''gpt.w'' = Some 10 \<and> map_of d ''hifigan.b'' = Some 30
      \<and> map_of d ''xtts.gpt.w'' = None \<and> map_of d ''dvae.w'' = None
      \<and> map_of d ''dvae.c'' = None \<and> map_of d ''xtts.dvae.c'' = None"
proof -
  let ?c = "[(''xtts.gpt.w'', 10::nat), (''dvae.w'', 20), (''hifigan.b'', 30), (''xtts.dvae.c'', 40)]"
  have d: "distinct (map (strip_xtts_prefix \<circ> fst) ?c)"
    by (simp add: strip_xtts_prefix_def)
  have c: "\<forall>key \<in> fst ` set ?c. clean_xtts_key key"
    by (simp add: clean_xtts_key_def sublist_code)
  have r: "remapped_checkpoint ?c = [(''gpt.w'', 10), (''hifigan.b'', 30)]"
    by (simp add: remapped_checkpoint_def strip_xtts_prefix_def first_component_def ignore_keys_def)
  from checkpoint_keys_remapped [OF d c] obtain d where
    "get_compatible_checkpoint_state_dict ?c = Inr d"
    "map_of d = map_of (remapped_checkpoint ?c)"
    by blast
  then show ?thesis
    by (simp add: r)
qed

text \<open>
  C7 as stated fails. The key \<^verbatim>\<open>xtts.gpt.xtts.w\<close> loses both occurrences of \<^verbatim>\<open>xtts.\<close>, not
  only the prefix; when \<^verbatim>\<open>xtts.gpt.w\<close> and \<^verbatim>\<open>gpt.w\<close> are both present, \<^verbatim>\<open>gpt.w\<close> does not
  keep its tensor; and when \<^verbatim>\<open>xtts.dvae.w\<close> and \<^verbatim>\<open>dvae.w\<close> are both present, the call
  raises \<^verbatim>\<open>KeyError\<close> and returns no mapping.
\<close>

theorem checkpoint_keys_remapped_counterexample:
  "get_compatible_checkpoint_state_dict [(''xtts.gpt.xtts.w'', 1::nat)] = Inr [(''gpt.w'', 1)]
 \<and> get_compatible_checkpoint_state_dict [(''xtts.gpt.w'', 1::nat), (''gpt.w'', 2)]
     = Inr [(''gpt.w'', 1)]
 \<and> get_compatible_checkpoint_state_dict [(''xtts.dvae.w'', 1::nat), (''dvae.w'', 2)]
     = Inl (KeyError ''dvae.w'')"
  by (simp add: checkpoint_eval)

subsection \<open>The retry of load_checkpoint\<close>

lemma load_attempts_simps:
  "load_attempts [] = 0"
  "load_attempts (c # cs) = (if c = Load_state_dict then Suc (load_attempts cs) else load_attempts cs)"
  "load_attempts (xs @ ys) = load_attempts xs + load_attempts ys"
  by (simp_all add: load_attempts_def)

text \<open>
  C8 (as amended). Once the state dict is adapted, \<open>load_checkpoint\<close> calls
  \<open>load_state_dict\<close> at most twice. When the first load raises, the GPT inference
  initialization runs only if \<open>eval\<close> is set, and in either case the load is tried once
  more, on the state so reached: an error of this second load is the error of the call,
  and nothing is called after it; when the second load succeeds, or the first one did,
  the call goes on to the final evaluation-mode steps.
\<close>

theorem load_checkpoint_retries_once:
  fixes M :: "('m, 'v) xtts_module"
  defines "m0 \<equiv> \<lambda>vocab_exists m. init_models M (if vocab_exists then load_tokenizer M m else m)"
  defines "pre \<equiv> \<lambda>vocab_exists. (if vocab_exists then [Load_tokenizer] else []) @ [Init_models]"
  defines "retry_state \<equiv> \<lambda>eval m_first. if eval then init_gpt_for_inference M m_first else m_first"
  defines "between \<equiv> \<lambda>eval. if eval then [Init_gpt_for_inference] else []"
  assumes adapt: "get_compatible_checkpoint_state_dict model_file = Inr checkpoint"
  shows "load_attempts (fst (load_checkpoint M vocab_exists model_file eval strict m)) \<le> 2
       \<and> (load_state_dict M checkpoint strict (m0 vocab_exists m) = (Some e, m_first)
            \<and> load_state_dict M checkpoint strict (retry_state eval m_first) = (Some e', m_retry)
          \<longrightarrow> load_checkpoint M vocab_exists model_file eval strict m
                = (pre vocab_exists @ [Load_state_dict] @ between eval @ [Load_state_dict], Inl e'))
       \<and> (load_state_dict M checkpoint strict (m0 vocab_exists m) = (Some e, m_first)
            \<and> load_state_dict M checkpoint strict (retry_state eval m_first) = (None, m_retry)
          \<longrightarrow> load_checkpoint M vocab_exists model_file eval strict m
                = finish_load M eval
                    (pre vocab_exists @ [Load_state_dict] @ between eval @ [Load_state_dict]) m_retry)
       \<and> (load_state_dict M checkpoint strict (m0 vocab_exists m) = (None, m_first)
          \<longrightarrow> load_checkpoint M vocab_exists model_file eval strict m
                = finish_load M eval (pre vocab_exists @ [Load_state_dict]) m_first)"
proof (intro conjI impI)
  show "load_attempts (fst (load_checkpoint M vocab_exists model_file eval strict m)) \<le> 2"
    by (simp add: load_checkpoint_def adapt finish_load_def load_attempts_simps
          split: prod.splits option.splits)
next
  assume "load_state_dict M checkpoint strict (m0 vocab_exists m) = (Some e, m_first)
            \<and> load_state_dict M checkpoint strict (retry_state eval m_first) = (Some e', m_retry)"
  then show "load_checkpoint M vocab_exists model_file eval strict m
                = (pre vocab_exists @ [Load_state_dict] @ between eval @ [Load_state_dict], Inl e')"
    by (cases eval; cases vocab_exists)
      (simp_all add: load_checkpoint_def adapt m0_def pre_def retry_state_def between_def)
next
  assume "load_state_dict M checkpoint strict (m0 vocab_exists m) = (Some e, m_first)
            \<and> load_state_dict M checkpoint strict (retry_state eval m_first) = (None, m_retry)"
  then show "load_checkpoint M vocab_exists model_file eval strict m
                = finish_load M eval
                    (pre vocab_exists @ [Load_state_dict] @ between eval @ [Load_state_dict]) m_retry"
    by (cases eval; cases vocab_exists)
      (simp_all add: load_checkpoint_def adapt m0_def pre_def retry_state_def between_def)
next
  assume "load_state_dict M checkpoint strict (m0 vocab_exists m) = (None, m_first)"
  then show "load_checkpoint M vocab_exists model_file eval strict m
                = finish_load M eval (pre vocab_exists @ [Load_state_dict]) m_first"
    by (cases vocab_exists) (simp_all add: load_checkpoint_def adapt m0_def pre_def)
qed

text \<open>
  The amended C8 with \<open>eval\<close> set: a module whose first load fails is loaded by the retry,
  and a module whose loads all fail gives the second error after two attempts.
\<close>

theorem load_checkpoint_retries_once_witness:
  "load_checkpoint flaky_module False [(''gpt.w'', 1)] True True 0
     = ([Init_models, Load_state_dict, Init_gpt_for_inference, Load_state_dict,
         Hifigan_eval, Init_gpt_for_inference, Gpt_eval], Inr 22)
 \<and> load_checkpoint broken_module False [(''gpt.w'', 1)] True True 0
     = ([Init_models, Load_state_dict, Init_gpt_for_inference, Load_state_dict], Inl LoadError)
 \<and> load_attempts (fst (load_checkpoint broken_module False [(''gpt.w'', 1)] True True 0)) \<le> 2"
proof -
  have adapt: "get_compatible_checkpoint_state_dict [(''gpt.w'', 1::nat)] = Inr [(''gpt.w'', 1)]"
    by (simp add: checkpoint_eval)
  have f1: "load_state_dict flaky_module [(''gpt.w'', 1)] True
              (init_models flaky_module (if False then load_tokenizer flaky_module 0 else 0))
            = (Some LoadError, 1)"
    by (simp add: flaky_module_def)
  have f2: "load_state_dict flaky_module [(''gpt.w'', 1)] True
              (if True then init_gpt_for_inference flaky_module 1 else 1) = (None, 12)"
    by (simp add: flaky_module_def)
  have b1: "load_state_dict broken_module [(''gpt.w'', 1)] True
              (init_models broken_module (if False then load_tokenizer broken_module 0 else 0))
            = (Some LoadError, 1)"
    by (simp add: broken_module_def)
  have b2: "load_state_dict broken_module [(''gpt.w'', 1)] True
              (if True then init_gpt_for_inference broken_module 1 else 1) = (Some LoadError, 12)"
    by (simp add: broken_module_def)
  from load_checkpoint_retries_once [where M = flaky_module and vocab_exists = False
      and eval = True and strict = True and m = 0 and e = LoadError and m_first = 1 and m_retry = 12,
      OF adapt] f1 f2
  have "load_checkpoint flaky_module False [(''gpt.w'', 1)] True True 0
     = ([Init_models, Load_state_dict, Init_gpt_for_inference, Load_state_dict,
         Hifigan_eval, Init_gpt_for_inference, Gpt_eval], Inr 22)"
    by (simp add: finish_load_def flaky_module_def)
  moreover
  from load_checkpoint_retries_once [where M = broken_module and vocab_exists = False
      and eval = True and strict = True and m = 0 and e = LoadError and e' = LoadError
      and m_first = 1 and m_retry = 12, OF adapt] b1 b2
  have "load_checkpoint broken_module False [(''gpt.w'', 1)] True True 0
     = ([Init_models, Load_state_dict, Init_gpt_for_inference, Load_state_dict], Inl LoadError)
     \<and> load_attempts (fst (load_checkpoint broken_module False [(''gpt.w'', 1)] True True 0)) \<le> 2"
    by (simp add: load_attempts_simps)
  ultimately show ?thesis
    by blast
qed

text \<open>
  C8 as stated fails when \<open>eval\<close> is not set: the first load raises, and the retry follows
  with no GPT inference initialization between the two loads.
\<close>

theorem load_checkpoint_retries_once_counterexample:
  "load_checkpoint flaky_module False [(''gpt.w'', 1)] False True 0
     = ([Init_models, Load_state_dict, Load_state_dict], Inr 2)"
  by (simp add: load_checkpoint_def flaky_module_def finish_load_def checkpoint_eval)

subsection \<open>The blend of handle_chunks\<close>

lemma length_linspace: "length (linspace a b n) = n"
  by (simp add: linspace_def)

lemma nth_linspace:
  "i < n \<Longrightarrow> linspace a b n ! i = a + (b - a) * real i / real (n - 1)"
  by (simp add: linspace_def)

lemma broadcast_same:
  "length xs = length ys \<Longrightarrow> broadcast f xs ys = Inr (map2 f xs ys)"
  by (simp add: broadcast_def)

lemma assign_head_length: "assign_head k t rhs = Inr t' \<Longrightarrow> length t' = length t"
  by (auto simp: assign_head_def Let_def split: if_splits)

lemma add_head_length: "add_head k t rhs = Inr t' \<Longrightarrow> length t' = length t"
  by (auto simp: add_head_def Let_def split: if_splits)

lemma blend_chunk_length:
  "blend_chunk wav_chunk wav_overlap overlap_len = Inr c \<Longrightarrow> length c = length wav_chunk"
  by (auto simp: blend_chunk_def split: sum.splits dest!: assign_head_length add_head_length)

lemma crossfade_length: "length (crossfade tail head) = length tail"
  by (simp add: crossfade_def)

lemma blend_chunk_crossfade:
  assumes "length wav_overlap = overlap_len" and "overlap_len \<le> length wav_chunk"
  shows "blend_chunk wav_chunk wav_overlap overlap_len
           = Inr (crossfade wav_overlap (take overlap_len wav_chunk) @ drop overlap_len wav_chunk)"
proof -
  let ?n = overlap_len
  let ?head = "take ?n wav_chunk"
  have lh: "length ?head = ?n"
    using assms(2) by simp
  have cf: "broadcast (*) ?head (linspace 0 1 ?n) = Inr (map2 (*) ?head (linspace 0 1 ?n))"
    using lh by (simp add: broadcast_same length_linspace del: length_take)
  have fd: "broadcast (*) wav_overlap (linspace 1 0 ?n) = Inr (map2 (*) wav_overlap (linspace 1 0 ?n))"
    using assms(1) by (simp add: broadcast_same length_linspace)
  have asg: "assign_head ?n wav_chunk (map2 (*) wav_overlap (linspace 1 0 ?n))
               = Inr (map2 (*) wav_overlap (linspace 1 0 ?n) @ drop ?n wav_chunk)"
    using assms by (simp add: assign_head_def length_linspace min_def)
  have add: "add_head ?n (map2 (*) wav_overlap (linspace 1 0 ?n) @ drop ?n wav_chunk)
                (map2 (*) ?head (linspace 0 1 ?n))
               = Inr (map2 (+) (map2 (*) wav_overlap (linspace 1 0 ?n))
                              (map2 (*) ?head (linspace 0 1 ?n)) @ drop ?n wav_chunk)"
    using assms by (simp add: add_head_def length_linspace min_def)
  have "map2 (+) (map2 (*) wav_overlap (linspace 1 0 ?n)) (map2 (*) ?head (linspace 0 1 ?n))
          = crossfade wav_overlap ?head"
  proof (rule nth_equalityI)
    show "length (map2 (+) (map2 (*) wav_overlap (linspace 1 0 ?n))
                   (map2 (*) ?head (linspace 0 1 ?n))) = length (crossfade wav_overlap ?head)"
      using assms by (simp add: crossfade_length length_linspace)
  next
    fix i
    assume "i < length (map2 (+) (map2 (*) wav_overlap (linspace 1 0 ?n))
                   (map2 (*) ?head (linspace 0 1 ?n)))"
    then have i: "i < ?n"
      using assms by (simp add: length_linspace)
    then show "map2 (+) (map2 (*) wav_overlap (linspace 1 0 ?n))
                   (map2 (*) ?head (linspace 0 1 ?n)) ! i = crossfade wav_overlap ?head ! i"
      using assms by (simp add: crossfade_def nth_linspace length_linspace algebra_simps)
  qed
  with cf fd asg add show ?thesis
    by (simp add: blend_chunk_def)
qed

lemma py_bound_le: "py_bound n i \<le> n"
  by (auto simp: py_bound_def)

lemma py_bound_neg: "0 < k \<Longrightarrow> py_bound n (- int k) = n - k"
  by (simp add: py_bound_def)

lemma py_bound_diff: "k \<le> p \<Longrightarrow> py_bound n (int p - int k) = min (p - k) n"
  by (simp add: py_bound_def nat_diff_distrib' flip: of_nat_diff)

lemma py_slice_tail: "0 < k \<Longrightarrow> py_slice xs (- int k) (int (length xs)) = drop (length xs - k) xs"
proof -
  assume "0 < k"
  then have "py_bound (length xs) (- int k) = length xs - k"
    by (rule py_bound_neg)
  then show ?thesis
    by (simp add: py_slice_def Let_def py_bound_def [of _ "int (length xs)"])
qed

lemma chunk_slice_eq:
  "chunk_slice wav_gen wav_gen_prev overlap_len =
     take (py_bound (length wav_gen) (- int overlap_len) - chunk_start wav_gen wav_gen_prev overlap_len)
       (drop (chunk_start wav_gen wav_gen_prev overlap_len) wav_gen)"
  by (cases wav_gen_prev) (simp_all add: chunk_slice_def chunk_start_def py_slice_def py_bound_def Let_def)

lemma chunk_slice_first:
  "0 < overlap_len \<Longrightarrow> chunk_slice wav_gen None overlap_len = take (length wav_gen - overlap_len) wav_gen"
  by (simp add: chunk_slice_eq py_bound_neg chunk_start_def)

lemma chunk_start_next:
  "overlap_len \<le> length prev \<Longrightarrow> length prev \<le> length wav_gen \<Longrightarrow>
     chunk_start wav_gen (Some prev) overlap_len = length prev - overlap_len"
  by (simp add: chunk_start_def py_bound_diff)

lemma chunk_slice_next:
  assumes "0 < overlap_len" and "overlap_len \<le> length prev" and "length prev \<le> length wav_gen"
  shows "chunk_slice wav_gen (Some prev) overlap_len =
           take (length wav_gen - length prev) (drop (length prev - overlap_len) wav_gen)"
proof -
  have "length wav_gen - overlap_len - (length prev - overlap_len) = length wav_gen - length prev"
    using assms by simp
  then show ?thesis
    using assms by (simp add: chunk_slice_eq py_bound_neg chunk_start_next)
qed

lemma handle_chunks_lengths:
  assumes "handle_chunks wav_gen wav_gen_prev wav_overlap overlap_len = Inr (c, g, ov)"
  shows "length c = length (chunk_slice wav_gen wav_gen_prev overlap_len) \<and> length g = length wav_gen"
proof (cases wav_overlap)
  case None
  with assms show ?thesis
    by (auto simp: handle_chunks_def Let_def)
next
  case (Some old)
  let ?s = "chunk_start wav_gen wav_gen_prev overlap_len"
  from assms Some have b: "blend_chunk (chunk_slice wav_gen wav_gen_prev overlap_len) old overlap_len = Inr c"
    and g: "g = take ?s wav_gen @ c @ drop (?s + length c) wav_gen"
    by (auto simp: handle_chunks_def Let_def split: sum.splits)
  from b have lc: "length c = length (chunk_slice wav_gen wav_gen_prev overlap_len)"
    by (rule blend_chunk_length)
  have "?s \<le> length wav_gen"
    by (cases wav_gen_prev) (simp_all add: chunk_start_def py_bound_le)
  moreover have "?s + length c \<le> length wav_gen"
    unfolding lc chunk_slice_eq using py_bound_le [of "length wav_gen" "- int overlap_len"] \<open>?s \<le> length wav_gen\<close>
    by simp
  ultimately have "length g = length wav_gen"
    unfolding g by simp
  with lc show ?thesis
    by simp
qed

lemma handle_chunks_first:
  "0 < overlap_len \<Longrightarrow>
     handle_chunks wav_gen wav_gen_prev None overlap_len
       = Inr (chunk_slice wav_gen wav_gen_prev overlap_len, wav_gen,
              drop (length wav_gen - overlap_len) wav_gen)"
  by (simp add: handle_chunks_def Let_def py_slice_tail)

lemma handle_chunks_next:
  assumes ov: "0 < overlap_len" and prev: "overlap_len \<le> length prev"
    and grow: "length prev + overlap_len \<le> length wav_gen"
    and old: "length wav_overlap = overlap_len"
  shows "\<exists>g. handle_chunks wav_gen (Some prev) (Some wav_overlap) overlap_len
           = Inr (crossfade wav_overlap (take overlap_len (drop (length prev - overlap_len) wav_gen))
                  @ take (length wav_gen - overlap_len - length prev) (drop (length prev) wav_gen),
                  g, drop (length wav_gen - overlap_len) wav_gen)
           \<and> length g = length wav_gen"
proof -
  let ?n = "length wav_gen" and ?p = "length prev" and ?k = overlap_len
  let ?raw = "chunk_slice wav_gen (Some prev) ?k"
  define c where "c = crossfade wav_overlap (take ?k (drop (?p - ?k) wav_gen))
            @ take (?n - ?k - ?p) (drop ?p wav_gen)"
  define g where "g = take (?p - ?k) wav_gen @ c @ drop (?p - ?k + length c) wav_gen"
  from grow have le: "?p \<le> ?n"
    by simp
  have raw: "?raw = take (?n - ?p) (drop (?p - ?k) wav_gen)"
    using ov prev le by (rule chunk_slice_next)
  have start: "chunk_start wav_gen (Some prev) ?k = ?p - ?k"
    using prev le by (rule chunk_start_next)
  have lraw: "?k \<le> length ?raw"
    unfolding raw using prev grow by simp
  have head: "take ?k ?raw = take ?k (drop (?p - ?k) wav_gen)"
    unfolding raw using grow by (auto simp: min_def)
  have rest: "drop ?k ?raw = take (?n - ?k - ?p) (drop ?p wav_gen)"
    unfolding raw using prev grow by (simp add: drop_take add.commute)
  from blend_chunk_crossfade [OF old lraw] head rest
  have blend: "blend_chunk ?raw wav_overlap ?k = Inr c"
    by (simp add: c_def)
  have lc: "length c = ?n - ?p"
    using old prev grow by (simp add: c_def crossfade_length)
  have lg: "length g = ?n"
    using lc prev grow by (simp add: g_def)
  have "drop (?n - ?k) g = drop (?n - ?k) wav_gen"
    using lc prev grow by (simp add: g_def)
  then have tail: "py_slice g (- int ?k) (int (length g)) = drop (?n - ?k) wav_gen"
    using py_slice_tail [OF ov, of g] lg by simp
  have "handle_chunks wav_gen (Some prev) (Some wav_overlap) ?k = Inr (c, g, drop (?n - ?k) wav_gen)"
    unfolding handle_chunks_def Let_def start using blend tail by (simp add: g_def)
  with lg show ?thesis
    unfolding c_def by blast
qed

text \<open>
  C4. When a previous overlap buffer of \<open>overlap_len\<close> samples exists and the new chunk
  has at least \<open>overlap_len\<close> samples, \<open>handle_chunks\<close> returns a chunk of the same length
  whose sample \<open>i < overlap_len\<close> is the held-back sample \<open>i\<close> times the fade
  \<open>1 - i / (overlap_len - 1)\<close> plus the new chunk's sample \<open>i\<close> times the fade
  \<open>i / (overlap_len - 1)\<close>, and whose other samples are those of the new chunk. When no
  previous overlap exists, the chunk is returned as sliced, with no blend.
\<close>

theorem handle_chunks_crossfade:
  fixes wav_gen :: "real list" and wav_gen_prev :: "real list option" and overlap_len :: nat
  defines "raw \<equiv> chunk_slice wav_gen wav_gen_prev overlap_len"
  shows "(length wav_overlap = overlap_len \<and> overlap_len \<le> length raw \<longrightarrow>
           (\<exists>c g ov. handle_chunks wav_gen wav_gen_prev (Some wav_overlap) overlap_len = Inr (c, g, ov)
              \<and> length c = length raw
              \<and> (\<forall>i < overlap_len.
                    c ! i = wav_overlap ! i * (1 - real i / real (overlap_len - 1))
                          + raw ! i * (real i / real (overlap_len - 1)))
              \<and> drop overlap_len c = drop overlap_len raw))
       \<and> (\<exists>g ov. handle_chunks wav_gen wav_gen_prev None overlap_len = Inr (raw, g, ov))"
proof (intro conjI impI)
  assume a: "length wav_overlap = overlap_len \<and> overlap_len \<le> length raw"
  let ?c = "crossfade wav_overlap (take overlap_len raw) @ drop overlap_len raw"
  from a have blend: "blend_chunk raw wav_overlap overlap_len = Inr ?c"
    by (simp add: blend_chunk_crossfade)
  have lc: "length ?c = length raw"
    using a by (simp add: crossfade_length)
  have nth: "?c ! i = wav_overlap ! i * (1 - real i / real (overlap_len - 1))
                          + raw ! i * (real i / real (overlap_len - 1))" if "i < overlap_len" for i
    using that a by (simp add: nth_append crossfade_length crossfade_def)
  have dr: "drop overlap_len ?c = drop overlap_len raw"
    using a by (simp add: crossfade_length)
  from blend have "\<exists>g ov. handle_chunks wav_gen wav_gen_prev (Some wav_overlap) overlap_len = Inr (?c, g, ov)"
    by (simp add: handle_chunks_def Let_def raw_def)
  with lc nth dr
  show "\<exists>c g ov. handle_chunks wav_gen wav_gen_prev (Some wav_overlap) overlap_len = Inr (c, g, ov)
              \<and> length c = length raw
              \<and> (\<forall>i < overlap_len.
                    c ! i = wav_overlap ! i * (1 - real i / real (overlap_len - 1))
                          + raw ! i * (real i / real (overlap_len - 1)))
              \<and> drop overlap_len c = drop overlap_len raw"
    by blast
next
  show "\<exists>g ov. handle_chunks wav_gen wav_gen_prev None overlap_len = Inr (raw, g, ov)"
    by (simp add: handle_chunks_def Let_def raw_def)
qed

text \<open>
  C4 at a decode of ten samples after a decode of five, with three samples held back:
  the fades are 1, 1/2, 0 and 0, 1/2, 1.
\<close>

theorem handle_chunks_crossfade_witness:
  "\<exists>c g ov. handle_chunks [1, 2, 3, 4, 5, 6, 7, 8, 9, 10] (Some [0, 0, 0, 0, 0]) (Some [10, 20, 30]) 3
               = Inr (c, g, ov)
          \<and> length c = 5 \<and> c ! 0 = 10 \<and> c ! 1 = 12 \<and> c ! 2 = 5 \<and> drop 3 c = [6, 7]"
proof -
  have raw: "chunk_slice [1, 2, 3, 4, 5, 6, 7, 8, 9, 10] (Some [0, 0, 0, 0, 0]) 3 = [3, 4, 5, 6, 7]"
    by (simp add: chunk_slice_def py_slice_def py_bound_def Let_def)
  from handle_chunks_crossfade [where wav_overlap = "[10, 20, 30]" and overlap_len = 3
      and wav_gen = "[1, 2, 3, 4, 5, 6, 7, 8, 9, 10]" and wav_gen_prev = "Some [0, 0, 0, 0, 0]"]
  obtain c g ov where
    h: "handle_chunks [1, 2, 3, 4, 5, 6, 7, 8, 9, 10] (Some [0, 0, 0, 0, 0]) (Some [10, 20, 30]) 3
               = Inr (c, g, ov)"
    and l: "length c = 5"
    and n: "\<forall>i < 3. c ! i = [10, 20, 30] ! i * (1 - real i / real (3 - 1))
                          + [3, 4, 5, 6, 7] ! i * (real i / real (3 - 1))"
    and d: "drop 3 c = drop 3 [3, 4, 5, 6, 7]"
    unfolding raw by auto
  from n have "c ! 0 = 10" "c ! 1 = 12" "c ! 2 = 5"
    by simp_all
  with h l d show ?thesis
    by simp
qed

subsection \<open>The lengths of the streamed chunks\<close>

lemma chunk_slice_length:
  assumes "0 < overlap_len"
    and "case wav_gen_prev of None \<Rightarrow> True | Some prev \<Rightarrow> overlap_len \<le> length prev"
    and "chunk_deficit wav_gen_prev overlap_len \<le> length wav_gen"
  shows "length (chunk_slice wav_gen wav_gen_prev overlap_len)
           = length wav_gen - chunk_deficit wav_gen_prev overlap_len"
proof (cases wav_gen_prev)
  case None
  with assms show ?thesis
    by (simp add: chunk_slice_first chunk_deficit_def)
next
  case (Some prev)
  with assms have "overlap_len \<le> length prev" and "length prev \<le> length wav_gen"
    by (simp_all add: chunk_deficit_def)
  with assms(1) Some show ?thesis
    by (simp add: chunk_slice_next chunk_deficit_def)
qed

lemma decode_chunk_Inr:
  assumes "decode_chunk hifigan spk overlap_wav_len all_latents wav_gen_prev wav_overlap = Inr r"
  shows "all_latents \<noteq> [] \<and> length (hifigan (concat all_latents) spk) \<noteq> 1
       \<and> handle_chunks (hifigan (concat all_latents) spk) wav_gen_prev wav_overlap overlap_wav_len = Inr r"
  using assms by (auto simp: decode_chunk_def Let_def split: if_splits)

lemma emission_latents_nonempty: "emission_latents scs gen count acc \<noteq> []"
  by (induction gen arbitrary: count acc) (auto split: if_splits)

lemma last_emission_latents: "last (emission_latents scs gen count acc) = acc @ map snd gen"
proof (induction gen arbitrary: count acc)
  case Nil
  then show ?case by simp
next
  case (Cons a gen)
  obtain x l where a: "a = (x, l)" by (cases a)
  show ?case
    using Cons.IH emission_latents_nonempty [of scs gen] by (simp add: a)
qed

lemma length_stream_decodes:
  "length (stream_decodes hifigan spk scs gen) = length (emission_latents scs gen 0 [])"
  by (simp add: stream_decodes_def)

lemma stream_loop_lengths:
  assumes "stream_loop hifigan spk scs ov gen last_tokens acc prev old = (chunks, None)"
    and "0 < ov"
    and "sorted (chunk_deficit prev ov
           # map (\<lambda>a. length (hifigan (concat a) spk))
                 (emission_latents scs gen (length last_tokens) acc))"
    and "case prev of None \<Rightarrow> True | Some p \<Rightarrow> ov \<le> length p"
  shows "length chunks = length (emission_latents scs gen (length last_tokens) acc)
       \<and> (\<forall>k < length chunks.
            length (concat (take (Suc k) chunks)) + chunk_deficit prev ov
              = length (hifigan (concat (emission_latents scs gen (length last_tokens) acc ! k)) spk))"
  using assms
proof (induction gen arbitrary: last_tokens acc prev old chunks)
  case Nil
  let ?w = "hifigan (concat acc) spk"
  from Nil.prems(1) obtain c g ov' where
    dec: "decode_chunk hifigan spk ov acc prev old = Inr (c, g, ov')" and chunks: "chunks = [c]"
    by (auto split: sum.splits)
  from decode_chunk_Inr [OF dec] have hc: "handle_chunks ?w prev old ov = Inr (c, g, ov')"
    by simp
  from Nil.prems(3) have le: "chunk_deficit prev ov \<le> length ?w"
    by simp
  from handle_chunks_lengths [OF hc] chunk_slice_length [OF Nil.prems(2) Nil.prems(4) le]
  have "length c = length ?w - chunk_deficit prev ov"
    by simp
  with le chunks show ?case
    by simp
next
  case (Cons a gen)
  obtain x l where a: "a = (x, l)" by (cases a)
  show ?case
  proof (cases "0 < scs \<and> scs \<le> int (length (last_tokens @ [x]))")
    case emit: True
    let ?acc = "acc @ [l]"
    let ?w = "hifigan (concat ?acc) spk"
    let ?rest = "emission_latents scs gen 0 ?acc"
    from emit have el: "emission_latents scs (a # gen) (length last_tokens) acc = ?acc # ?rest"
      by (simp add: a)
    from Cons.prems(1) emit obtain c g ov' cs where
      dec: "decode_chunk hifigan spk ov ?acc prev old = Inr (c, g, ov')"
      and rest: "stream_loop hifigan spk scs ov gen [] ?acc (Some g) (Some ov') = (cs, None)"
      and chunks: "chunks = c # cs"
      by (auto simp: a Let_def split: sum.splits prod.splits)
    from decode_chunk_Inr [OF dec] have hc: "handle_chunks ?w prev old ov = Inr (c, g, ov')"
      by simp
    from Cons.prems(3) have le: "chunk_deficit prev ov \<le> length ?w"
      and sorted': "sorted (length ?w # map (\<lambda>a. length (hifigan (concat a) spk)) ?rest)"
      unfolding el by simp_all
    from handle_chunks_lengths [OF hc] chunk_slice_length [OF Cons.prems(2) Cons.prems(4) le]
    have lc: "length c = length ?w - chunk_deficit prev ov" and lg: "length g = length ?w"
      by simp_all
    from Cons.prems(4) le Cons.prems(2) have ovg: "ov \<le> length g"
      unfolding lg by (cases prev) (simp_all add: chunk_deficit_def)
    have IH: "length cs = length ?rest
       \<and> (\<forall>k < length cs. length (concat (take (Suc k) cs)) + chunk_deficit (Some g) ov
              = length (hifigan (concat (?rest ! k)) spk))"
      using Cons.IH [of "[]" ?acc "Some g" "Some ov'" cs] rest Cons.prems(2) sorted' ovg
      by (simp add: chunk_deficit_def lg)
    show ?thesis
      unfolding el chunks
    proof (intro conjI allI impI)
      show "length (c # cs) = length (?acc # ?rest)"
        using IH by simp
    next
      fix k
      assume k: "k < length (c # cs)"
      show "length (concat (take (Suc k) (c # cs))) + chunk_deficit prev ov
              = length (hifigan (concat ((?acc # ?rest) ! k)) spk)"
      proof (cases k)
        case 0
        with lc le show ?thesis by simp
      next
        case (Suc j)
        with k IH have "length (concat (take (Suc j) cs)) + length g
              = length (hifigan (concat (?rest ! j)) spk)"
          by (simp add: chunk_deficit_def)
        with Suc lc lg le show ?thesis
          by simp
      qed
    qed
  next
    case False
    then have el: "emission_latents scs (a # gen) (length last_tokens) acc
                     = emission_latents scs gen (length (last_tokens @ [x])) (acc @ [l])"
      by (auto simp: a)
    from Cons.prems(1) False
    have run: "stream_loop hifigan spk scs ov gen (last_tokens @ [x]) (acc @ [l]) prev old = (chunks, None)"
      by (auto simp: a Let_def split: if_splits)
    show ?thesis
      unfolding el using Cons.IH [OF run Cons.prems(2) _ Cons.prems(4)] Cons.prems(3)
      unfolding el by simp
  qed
qed

lemmas stream_eval =
  inference_stream_def demo_stream_def lookahead_decoder_def decode_chunk_def handle_chunks_def
  chunk_slice_def chunk_start_def blend_chunk_def broadcast_def assign_head_def add_head_def
  linspace_def py_slice_def py_bound_def Let_def

lemma demo_stream_run:
  "inference_stream id (demo_stream [1, 2, 4]) ''hi'' ''en'' () () 2 2 () ''hifigan''
     = ([[3, 3, 3, 2], [2, 6, 4]], None)"
  by (simp add: stream_eval upt_rec)

text \<open>
  When the generator is exhausted right after a chunk was yielded, the last decode is the
  previous one again: the last chunk is empty, its head does not have the size of the
  fades, and the blend raises after the chunks already yielded.
\<close>

lemma demo_stream_short_last_chunk:
  "inference_stream id (demo_stream [1, 2, 4, 8]) ''hi'' ''en'' () () 2 2 () ''hifigan''
     = ([[3, 3, 3, 2], [2, 6, 12, 12, 12, 8]], Some RuntimeError)"
  by (simp add: stream_eval upt_rec)

lemma demo_stream_decodes:
  "stream_decodes (stream_hifigan_decoder (demo_stream [1, 2, 4])) () 2
     (gpt_get_generator (demo_stream [1, 2, 4]) ()
        (stream_tokenizer_encode (demo_stream [1, 2, 4]) (id ''hi'') ''en'') ())
     = [[3, 3, 3, 2, 2, 2], [3, 3, 3, 6, 6, 6, 4, 4, 4]]"
  by (simp add: stream_decodes_def demo_stream_def lookahead_decoder_def)

text \<open>
  C10 (as amended). For a streaming run that completes, with \<open>overlap_wav_len > 0\<close>, a
  first decode of at least \<open>overlap_wav_len\<close> samples and decodes that never get shorter:
  there is one chunk per decode, the chunks yielded up to and including the \<open>k\<close>-th
  cover the \<open>k\<close>-th decode except its last \<open>overlap_wav_len\<close> samples, and so all chunks
  together are exactly \<open>overlap_wav_len\<close> samples shorter than the decode of all
  accumulated latents.
\<close>

theorem inference_stream_holds_back_overlap:
  fixes self :: "('c, 's, 'x, 'l, 'g) xtts_stream"
    and strip_lower :: "string \<Rightarrow> string" and sentence language :: string
    and cond :: 'c and settings :: 's and spk :: 'g and stream_chunk_size :: int
  defines "gen \<equiv> gpt_get_generator self cond
                    (stream_tokenizer_encode self (strip_lower sentence) language) settings"
  defines "ws \<equiv> stream_decodes (stream_hifigan_decoder self) spk stream_chunk_size gen"
  assumes run: "inference_stream strip_lower self sentence language cond spk stream_chunk_size
                  overlap_wav_len settings decoder = (chunks, None)"
    and ov: "0 < overlap_wav_len"
    and grow: "sorted (overlap_wav_len # map length ws)"
  shows "length chunks = length ws
       \<and> (\<forall>k < length chunks.
            length (concat (take (Suc k) chunks)) + overlap_wav_len = length (ws ! k))
       \<and> length (concat chunks) + overlap_wav_len
           = length (stream_hifigan_decoder self (concat (map snd gen)) spk)"
proof -
  let ?h = "stream_hifigan_decoder self"
  let ?el = "emission_latents stream_chunk_size gen 0 []"
  from run have loop: "stream_loop ?h spk stream_chunk_size overlap_wav_len gen [] [] None None
                         = (chunks, None)"
    by (simp add: inference_stream_def gen_def Let_def)
  from grow have sorted': "sorted (chunk_deficit None overlap_wav_len
           # map (\<lambda>a. length (?h (concat a) spk)) (emission_latents stream_chunk_size gen (length []) []))"
    by (simp add: ws_def stream_decodes_def chunk_deficit_def comp_def)
  from stream_loop_lengths [OF loop ov sorted']
  have len: "length chunks = length ?el"
    and pre: "\<forall>k < length chunks.
            length (concat (take (Suc k) chunks)) + overlap_wav_len = length (?h (concat (?el ! k)) spk)"
    by (simp_all add: chunk_deficit_def)
  have len': "length chunks = length ws"
    using len by (simp add: ws_def stream_decodes_def)
  have pre': "\<forall>k < length chunks.
            length (concat (take (Suc k) chunks)) + overlap_wav_len = length (ws ! k)"
    using pre len by (simp add: ws_def stream_decodes_def)
  have ne: "?el \<noteq> []"
    by (rule emission_latents_nonempty)
  with len have "length chunks - 1 < length chunks"
    by (cases chunks) simp_all
  with pre have "length (concat (take (Suc (length chunks - 1)) chunks)) + overlap_wav_len
                   = length (?h (concat (?el ! (length chunks - 1))) spk)"
    by blast
  moreover have "?el ! (length chunks - 1) = last ?el"
    using ne len by (simp add: last_conv_nth)
  moreover have "Suc (length chunks - 1) = length chunks"
    using ne len by (cases chunks) simp_all
  ultimately have "length (concat chunks) + overlap_wav_len
           = length (?h (concat (map snd gen)) spk)"
    by (simp add: last_emission_latents)
  with len' pre' show ?thesis
    by blast
qed

text \<open>
  The amended C10 at a run of three frames in chunks of two with an overlap of two
  samples: seven samples are yielded, and the full decode has nine.
\<close>

theorem inference_stream_holds_back_overlap_witness:
  "inference_stream id (demo_stream [1, 2, 4]) ''hi'' ''en'' () () 2 2 () ''hifigan''
     = ([[3, 3, 3, 2], [2, 6, 4]], None)
 \<and> length (concat [[3, 3, 3, 2], [2, 6, 4::real]]) + 2
     = length (stream_hifigan_decoder (demo_stream [1, 2, 4])
                 (concat (map snd (gpt_get_generator (demo_stream [1, 2, 4]) ()
                    (stream_tokenizer_encode (demo_stream [1, 2, 4]) (id ''hi'') ''en'') ()))) ())"
proof -
  have grow: "sorted (2 # map length
     (stream_decodes (stream_hifigan_decoder (demo_stream [1, 2, 4])) () 2
       (gpt_get_generator (demo_stream [1, 2, 4]) ()
          (stream_tokenizer_encode (demo_stream [1, 2, 4]) (id ''hi'') ''en'') ())))"
    unfolding demo_stream_decodes by simp
  from inference_stream_holds_back_overlap [OF demo_stream_run _ grow] demo_stream_run
  show ?thesis
    by simp
qed

text \<open>
  C10 as stated fails. A run of one frame completes with one empty chunk both for
  \<open>overlap_wav_len = 0\<close> (the slice \<^verbatim>\<open>wav_gen[:-0]\<close> is empty) and for \<open>overlap_wav_len = 5\<close>
  (more than the decode has): no sample is yielded, and the full decode has three, which
  is neither 0 nor 5 samples more.
\<close>

theorem inference_stream_holds_back_overlap_counterexample:
  "inference_stream id (demo_stream [1]) ''hi'' ''en'' () () 2 0 () ''hifigan'' = ([[]], None)
 \<and> inference_stream id (demo_stream [1]) ''hi'' ''en'' () () 2 5 () ''hifigan'' = ([[]], None)
 \<and> lookahead_decoder [1] () = [1, 1, 1]"
  by (simp add: stream_eval)

subsection \<open>The streamed signal and the decodes\<close>

lemma decode_chunk_first:
  assumes "0 < ov" and "acc \<noteq> []" and "length (h (concat acc) spk) \<noteq> 1"
  shows "decode_chunk h spk ov acc None None
           = Inr (take (length (h (concat acc) spk) - ov) (h (concat acc) spk), h (concat acc) spk,
                  drop (length (h (concat acc) spk) - ov) (h (concat acc) spk))"
  using assms by (simp add: decode_chunk_def Let_def handle_chunks_first chunk_slice_first)

lemma decode_chunk_next:
  assumes "0 < ov" and "acc \<noteq> []" and "ov \<le> length p" and "length g = length p"
    and "length p + ov \<le> length (h (concat acc) spk)"
  shows "\<exists>g'. decode_chunk h spk ov acc (Some g) (Some (drop (length p - ov) p))
           = Inr (crossfade (drop (length p - ov) p)
                    (take ov (drop (length p - ov) (h (concat acc) spk)))
                  @ take (length (h (concat acc) spk) - ov - length p)
                      (drop (length p) (h (concat acc) spk)),
                  g', drop (length (h (concat acc) spk) - ov) (h (concat acc) spk))
           \<and> length g' = length (h (concat acc) spk)"
proof -
  let ?w = "h (concat acc) spk"
  from assms have one: "length ?w \<noteq> 1"
    by simp
  have old: "length (drop (length p - ov) p) = ov"
    using assms(3) by simp
  from assms have "ov \<le> length g" and "length g + ov \<le> length ?w"
    by simp_all
  from handle_chunks_next [OF assms(1) this old] assms(2) one show ?thesis
    by (simp add: decode_chunk_def Let_def assms(4))
qed

lemma stream_loop_stitched:
  assumes "0 < ov" and "acc \<noteq> [] \<or> gen \<noteq> []"
    and "chunk_shapes ov q (map (\<lambda>a. h (concat a) spk) (emission_latents scs gen (length last_tokens) acc))"
    and "case q of None \<Rightarrow> prev = None \<and> old = None
         | Some p \<Rightarrow> ov \<le> length p \<and> (\<exists>g. prev = Some g \<and> length g = length p)
                     \<and> old = Some (drop (length p - ov) p)"
  shows "stream_loop h spk scs ov gen last_tokens acc prev old
           = (stitched_chunks ov q
                (map (\<lambda>a. h (concat a) spk) (emission_latents scs gen (length last_tokens) acc)),
              None)"
  using assms
proof (induction gen arbitrary: last_tokens acc prev old q)
  case Nil
  then have acc: "acc \<noteq> []"
    by simp
  show ?case
  proof (cases q)
    case None
    with Nil.prems(3,4) decode_chunk_first [OF Nil.prems(1) acc, of h spk] show ?thesis
      by simp
  next
    case (Some p)
    with Nil.prems(4) obtain g where g: "prev = Some g" "length g = length p" "ov \<le> length p"
      "old = Some (drop (length p - ov) p)"
      by auto
    from Nil.prems(3) Some have "length p + ov \<le> length (h (concat acc) spk)"
      by simp
    from decode_chunk_next [where h = h and spk = spk and acc = acc, OF Nil.prems(1) acc g(3) g(2) this]
      g Some show ?thesis
      by auto
  qed
next
  case (Cons a gen)
  obtain x l where a: "a = (x, l)" by (cases a)
  let ?acc = "acc @ [l]"
  let ?w = "h (concat ?acc) spk"
  have acc: "?acc \<noteq> []"
    by simp
  show ?case
  proof (cases "0 < scs \<and> scs \<le> int (length (last_tokens @ [x]))")
    case emit: True
    let ?rest = "map (\<lambda>a. h (concat a) spk) (emission_latents scs gen 0 ?acc)"
    from emit have el: "map (\<lambda>a. h (concat a) spk) (emission_latents scs (a # gen) (length last_tokens) acc)
                          = ?w # ?rest"
      by (simp add: a)
    have "\<exists>c g o'. decode_chunk h spk ov ?acc prev old = Inr (c, g, o')
             \<and> stitched_chunks ov q (?w # ?rest) = c # stitched_chunks ov (Some ?w) ?rest
             \<and> length g = length ?w \<and> o' = drop (length ?w - ov) ?w \<and> ov \<le> length ?w
             \<and> chunk_shapes ov (Some ?w) ?rest"
    proof (cases q)
      case None
      with Cons.prems(3,4) decode_chunk_first [OF Cons.prems(1) acc, of h spk] show ?thesis
        unfolding el by simp
    next
      case (Some p)
      with Cons.prems(4) obtain g where g: "prev = Some g" "length g = length p" "ov \<le> length p"
        "old = Some (drop (length p - ov) p)"
        by auto
      from Cons.prems(3) Some have grow: "length p + ov \<le> length ?w"
        and shapes: "chunk_shapes ov (Some ?w) ?rest"
        unfolding el by simp_all
      from decode_chunk_next [where h = h and spk = spk and acc = ?acc,
          OF Cons.prems(1) acc g(3) g(2) grow] g Some shapes grow show ?thesis
        by auto
    qed
    then obtain c g o' where
      dec: "decode_chunk h spk ov ?acc prev old = Inr (c, g, o')"
      and st: "stitched_chunks ov q (?w # ?rest) = c # stitched_chunks ov (Some ?w) ?rest"
      and g: "length g = length ?w" "o' = drop (length ?w - ov) ?w" "ov \<le> length ?w"
      and shapes: "chunk_shapes ov (Some ?w) ?rest"
      by blast
    have "stream_loop h spk scs ov gen [] ?acc (Some g) (Some o')
            = (stitched_chunks ov (Some ?w) ?rest, None)"
      using Cons.IH [where last_tokens = "[]" and acc = ?acc and prev = "Some g" and old = "Some o'"
          and q = "Some ?w"] Cons.prems(1) shapes g
      by simp
    with dec emit show ?thesis
      unfolding el st by (simp add: a Let_def)
  next
    case False
    then have el: "emission_latents scs (a # gen) (length last_tokens) acc
                     = emission_latents scs gen (length (last_tokens @ [x])) ?acc"
      by (auto simp: a)
    from False have "stream_loop h spk scs ov (a # gen) last_tokens acc prev old
                       = stream_loop h spk scs ov gen (last_tokens @ [x]) ?acc prev old"
      by (auto simp: a Let_def)
    moreover have "stream_loop h spk scs ov gen (last_tokens @ [x]) ?acc prev old
           = (stitched_chunks ov q
                (map (\<lambda>a. h (concat a) spk)
                   (emission_latents scs gen (length (last_tokens @ [x])) ?acc)), None)"
      using Cons.prems(3) unfolding el
      by (intro Cons.IH [OF Cons.prems(1) _ _ Cons.prems(4)]) simp_all
    ultimately show ?thesis
      unfolding el by simp
  qed
qed

text \<open>
  C3 (as amended). For a streaming run with \<open>overlap_wav_len > 0\<close> whose generator yields
  at least one pair, whose first decode has at least \<open>overlap_wav_len\<close> samples and whose
  every later decode is at least \<open>overlap_wav_len\<close> samples longer than the one before, the
  run completes and yields the chunks of the specification, built from the decodes made
  during the run: outside the overlaps each chunk equals the same region of the decode of
  the latents accumulated when that chunk is made (not of one final decode), and over an
  overlap it is the linear blend of the previous decode's tail, fading out, and the
  new decode's samples at the same positions, fading in.
\<close>

theorem inference_stream_crossfade:
  fixes self :: "('c, 's, 'x, 'l, 'g) xtts_stream"
    and strip_lower :: "string \<Rightarrow> string" and sentence language :: string
    and cond :: 'c and settings :: 's and spk :: 'g and stream_chunk_size :: int
  defines "gen \<equiv> gpt_get_generator self cond
                    (stream_tokenizer_encode self (strip_lower sentence) language) settings"
  defines "ws \<equiv> stream_decodes (stream_hifigan_decoder self) spk stream_chunk_size gen"
  assumes ov: "0 < overlap_wav_len" and gen: "gen \<noteq> []"
    and shapes: "chunk_shapes overlap_wav_len None ws"
  shows "inference_stream strip_lower self sentence language cond spk stream_chunk_size
           overlap_wav_len settings decoder
         = (stitched_chunks overlap_wav_len None ws, None)"
proof -
  have "stream_loop (stream_hifigan_decoder self) spk stream_chunk_size overlap_wav_len gen [] []
          None None
        = (stitched_chunks overlap_wav_len None
             (map (\<lambda>a. stream_hifigan_decoder self (concat a) spk)
                (emission_latents stream_chunk_size gen (length []) [])), None)"
    using shapes gen
      stream_loop_stitched [where h = "stream_hifigan_decoder self" and spk = spk
        and scs = stream_chunk_size and gen = gen and last_tokens = "[]" and acc = "[]"
        and q = None and prev = None and old = None, OF ov]
    by (simp add: ws_def stream_decodes_def)
  then show ?thesis
    by (simp add: inference_stream_def Let_def gen_def ws_def stream_decodes_def)
qed

text \<open>The amended C3 at the run of three frames in chunks of two, overlap two.\<close>

theorem inference_stream_crossfade_witness:
  "inference_stream id (demo_stream [1, 2, 4]) ''hi'' ''en'' () () 2 2 () ''hifigan''
     = ([[3, 3, 3, 2], [2, 6, 4]], None)"
proof -
  have gen: "gpt_get_generator (demo_stream [1, 2, 4]) ()
        (stream_tokenizer_encode (demo_stream [1, 2, 4]) (id ''hi'') ''en'') () \<noteq> []"
    by (simp add: demo_stream_def)
  have shapes: "chunk_shapes 2 None
     (stream_decodes (stream_hifigan_decoder (demo_stream [1, 2, 4])) () 2
       (gpt_get_generator (demo_stream [1, 2, 4]) ()
          (stream_tokenizer_encode (demo_stream [1, 2, 4]) (id ''hi'') ''en'') ()))"
    unfolding demo_stream_decodes by simp
  have "inference_stream id (demo_stream [1, 2, 4]) ''hi'' ''en'' () () 2 2 () ''hifigan''
          = (stitched_chunks 2 None [[3, 3, 3, 2, 2, 2], [3, 3, 3, 6, 6, 6, 4, 4, 4]], None)"
    using inference_stream_crossfade [where self = "demo_stream [1, 2, 4]" and strip_lower = id
        and sentence = "''hi''" and language = "''en''" and cond = "()" and settings = "()"
        and spk = "()" and stream_chunk_size = 2 and overlap_wav_len = 2
        and decoder = "''hifigan''", OF _ gen shapes]
    unfolding demo_stream_decodes by simp
  then show ?thesis
    by (simp add: crossfade_def upt_rec)
qed

text \<open>
  C3 as stated fails for a decoder whose output for a prefix of the latents is not a
  prefix of its output for all of them. In the run above sample 3 lies in the first chunk,
  outside the overlap (positions 4 and 5); the stream has the value 2 there, taken from
  the decode of the first two frames, and the single decode of all three frames has 6.
\<close>

theorem inference_stream_crossfade_counterexample:
  "inference_stream id (demo_stream [1, 2, 4]) ''hi'' ''en'' () () 2 2 () ''hifigan''
     = ([[3, 3, 3, 2], [2, 6, 4]], None)
 \<and> lookahead_decoder [1, 2, 4] () = [3, 3, 3, 6, 6, 6, 4, 4, 4]
 \<and> concat (fst (inference_stream id (demo_stream [1, 2, 4]) ''hi'' ''en'' () () 2 2 () ''hifigan'')) ! 3
     \<noteq> lookahead_decoder [1, 2, 4] () ! 3"
  by (simp add: demo_stream_run) (simp add: lookahead_decoder_def)

end
